(* ===== verification/Prelude.thy ===== *)
theory Prelude
  imports Complex_Main "HOL-Library.Multiset" "HOL-Library.Sublist"
begin

text \<open>
  Shared vocabulary of the federation-service model: the types that name the
  program's values (peer URLs, wall-clock readings), the Python and tornado
  builtins whose failures the service code can hit (\<open>set.remove\<close> raising
  \<open>KeyError\<close>, \<open>Queue.task_done\<close> raising \<open>ValueError\<close>), JSON values with
  the hashing that sets and dicts apply to them (\<open>pykey\<close>, \<open>hash_key\<close>),
  and the generic list and multiset lemmas the component theories share.  The builtins are modelled
  from their library documentation; they are not code of the repository.
\<close>

section \<open>Names of the model's types\<close>

text \<open>
  A peer of the table is identified by its base URL, a Python \<open>str\<close>; the
  source compares URLs by string equality only.  Clock readings (\<open>datetime.now().timestamp()\<close>,
  \<open>datetime.utcnow()\<close> as seconds) are modelled as reals: the code only
  subtracts and compares them.
\<close>

type_synonym url = string
type_synonym time = real

named_theorems py_simps "behaviour of the Python and tornado builtins the service calls"
named_theorems busy_simps "how the multiset of busy entries of a worker list changes"

section \<open>Python and tornado builtins\<close>

text \<open>The exceptions the modelled code can raise.\<close>

datatype py_error = KeyError | ValueError | TypeError | AttributeError

text \<open>\<open>set.remove(x)\<close>: raises \<open>KeyError\<close> when \<open>x\<close> is absent.\<close>

definition set_remove :: "'a \<Rightarrow> 'a set \<Rightarrow> py_error + 'a set" where
  "set_remove x A = (if x \<in> A then Inr (A - {x}) else Inl KeyError)"

text \<open>
  \<open>tornado.queues.Queue.task_done()\<close>: decrements the count of unfinished
  tasks and raises \<open>ValueError\<close> when it is already zero.
\<close>

definition task_done :: "nat \<Rightarrow> py_error + nat" where
  "task_done n = (if n = 0 then Inl ValueError else Inr (n - 1))"

section \<open>JSON values and the Python operations applied to them\<close>

text \<open>
  What \<open>json.loads\<close> returns: \<open>None\<close>, booleans, integers, floats, strings,
  lists and dicts.  A dict is its list of key/value pairs as written; \<open>json.loads\<close> keeps
  the last value of a repeated key, at the position of its first occurrence.
\<close>

datatype json = JNull | JBool bool | JNum int | JReal real | JStr string | JArr "json list"
  | JObj "(string \<times> json) list"

text \<open>\<open>v[k]\<close> with a string key: a dict lookup, \<open>KeyError\<close> when absent,
  \<open>TypeError\<close> on anything but a dict.\<close>

fun py_getitem :: "json \<Rightarrow> string \<Rightarrow> py_error + json" where
  "py_getitem (JObj kvs) k = (case map_of (rev kvs) k of None \<Rightarrow> Inl KeyError | Some v \<Rightarrow> Inr v)"
| "py_getitem _ k = Inl TypeError"

text \<open>\<open>for x in v\<close>: the items of a list, the one-character strings of a
  string, the keys of a dict (each once, in order of first occurrence);
  \<open>TypeError\<close> on a scalar.\<close>

fun py_iter :: "json \<Rightarrow> py_error + json list" where
  "py_iter (JArr xs) = Inr xs"
| "py_iter (JStr s) = Inr (map (\<lambda>ch. JStr [ch]) s)"
| "py_iter (JObj kvs) = Inr (map JStr (remdups (map fst kvs)))"
| "py_iter _ = Inl TypeError"

text \<open>
  What a set or a dict of Python sees of a hashable value: equality of keys
  is Python's \<open>==\<close>, under which \<open>True == 1 == 1.0\<close> and
  \<open>False == 0 == 0.0\<close>, while a string equals only itself.  (Floats are
  reals: \<open>json.loads\<close> can also produce \<open>NaN\<close> and infinities, which the
  model's JSON values do not have.)
\<close>

datatype pykey = KNone | KNum real | KStr string

text \<open>
  Hashing a JSON value for a set or dict operation: lists and dicts are
  unhashable and raise \<open>TypeError\<close>.
\<close>

fun hash_key :: "json \<Rightarrow> py_error + pykey" where
  "hash_key JNull = Inr KNone"
| "hash_key (JBool b) = Inr (KNum (if b then 1 else 0))"
| "hash_key (JNum i) = Inr (KNum (of_int i))"
| "hash_key (JReal r) = Inr (KNum r)"
| "hash_key (JStr s) = Inr (KStr s)"
| "hash_key (JArr xs) = Inl TypeError"
| "hash_key (JObj kvs) = Inl TypeError"

text \<open>Hashing the items of a list in order, raising at the first unhashable one.\<close>

fun hash_keys :: "json list \<Rightarrow> py_error + pykey list" where
  "hash_keys [] = Inr []"
| "hash_keys (x # xs) =
     (case hash_key x of
        Inl e \<Rightarrow> Inl e
      | Inr k \<Rightarrow> (case hash_keys xs of Inl e \<Rightarrow> Inl e | Inr ks \<Rightarrow> Inr (k # ks)))"

text \<open>
  \<open>json.dumps\<close> of a set element, up to Python equality: a number is written
  as a float (the element may have been an int or a bool that compares equal).
\<close>

fun key_json :: "pykey \<Rightarrow> json" where
  "key_json KNone = JNull"
| "key_json (KNum r) = JReal r"
| "key_json (KStr s) = JStr s"

text \<open>Substring test of \<open>str.__contains__\<close>, scanning the haystack.\<close>

fun str_contains :: "string \<Rightarrow> string \<Rightarrow> bool" where
  "str_contains n [] \<longleftrightarrow> n = []"
| "str_contains n (ch # cs) \<longleftrightarrow> prefix n (ch # cs) \<or> str_contains n cs"

text \<open>\<open>s in v\<close> for a string \<open>s\<close>: substring of a string, element of a list,
  key of a dict, \<open>TypeError\<close> otherwise.\<close>

fun py_contains :: "string \<Rightarrow> json \<Rightarrow> py_error + bool" where
  "py_contains n (JStr s) = Inr (str_contains n s)"
| "py_contains n (JArr xs) = Inr (JStr n \<in> set xs)"
| "py_contains n (JObj kvs) = Inr (n \<in> set (map fst kvs))"
| "py_contains n _ = Inl TypeError"

text \<open>\<open>str.strip()\<close>: drop leading and trailing whitespace (the ASCII
  whitespace characters; the model's characters are 8-bit).\<close>

definition py_isspace :: "char \<Rightarrow> bool" where
  "py_isspace c \<longleftrightarrow> c \<in> {CHR '' '', CHR 0x09, CHR 0x0A, CHR 0x0B, CHR 0x0C, CHR 0x0D}"

definition py_strip :: "string \<Rightarrow> string" where
  "py_strip s = rev (dropWhile py_isspace (rev (dropWhile py_isspace s)))"

text \<open>\<open>os.environ.get(name, default)\<close>, the variable being unset (\<open>None\<close>) or set.\<close>

definition env_get :: "string option \<Rightarrow> string \<Rightarrow> string" where
  "env_get x d = (case x of None \<Rightarrow> d | Some s \<Rightarrow> s)"

text \<open>
  The answer to an awaited \<open>client.fetch\<close> whose body is then passed to
  \<open>json.loads\<close>: a transport error or an HTTP error status, or a body, which
  may not parse as JSON (\<open>None\<close>).
\<close>

datatype fetch_outcome = FetchFailed | FetchBody "json option"

text \<open>The string a JSON value holds, if it is one.\<close>

fun json_str :: "json \<Rightarrow> string option" where
  "json_str (JStr s) = Some s"
| "json_str _ = None"

text \<open>
  Python iterates a \<open>set\<close> in an order it does not specify, each element
  once: \<open>xs\<close> is such an order of \<open>A\<close>.
\<close>

definition set_order :: "'a list \<Rightarrow> 'a set \<Rightarrow> bool" where
  "set_order xs A \<longleftrightarrow> distinct xs \<and> set xs = A"

section \<open>Lemmas on the builtins\<close>

lemma hash_key_key_json [simp]: "hash_key (key_json k) = Inr k"
  by (cases k) simp_all

lemma hash_keys_map_key_json [simp]: "hash_keys (map key_json ks) = Inr ks"
  by (induction ks) simp_all

lemma hash_keys_map_JStr [simp]: "hash_keys (map JStr ps) = Inr (map KStr ps)"
  by (induction ps) simp_all

lemma distinct_map_KStr [simp]: "distinct (map KStr d) = distinct d"
  by (simp add: distinct_map inj_on_def)

lemma KStr_image_iff [simp]: "KStr p \<in> KStr ` A \<longleftrightarrow> p \<in> A"
  by auto

lemma set_remove_mem [py_simps, simp]: "x \<in> A \<Longrightarrow> set_remove x A = Inr (A - {x})"
  by (simp add: set_remove_def)

lemma set_remove_not_mem [py_simps, simp]: "x \<notin> A \<Longrightarrow> set_remove x A = Inl KeyError"
  by (simp add: set_remove_def)

lemma task_done_Suc [py_simps, simp]: "task_done (Suc n) = Inr n"
  by (simp add: task_done_def)

lemma task_done_0 [py_simps, simp]: "task_done 0 = Inl ValueError"
  by (simp add: task_done_def)

lemma task_done_pos [py_simps]: "0 < n \<Longrightarrow> task_done n = Inr (n - 1)"
  by (simp add: task_done_def)

section \<open>Lists of per-worker entries\<close>

text \<open>
  A pool of workers is a list indexed by worker number; what the workers hold
  (the peer each one is contacting) is collected with \<open>concat (map f ws)\<close>.
  Updating one worker changes that collection by one entry out and one in.
\<close>

lemma mset_concat_map_update [busy_simps]:
  assumes "i < length xs"
  shows "mset (concat (map f (xs[i := x]))) =
           mset (concat (map f xs)) - mset (f (xs ! i)) + mset (f x)"
proof -
  have xs: "xs = take i xs @ xs ! i # drop (Suc i) xs"
    using assms by (rule id_take_nth_drop)
  have upd: "xs[i := x] = take i xs @ x # drop (Suc i) xs"
    using assms by (rule upd_conv_take_nth_drop)
  have "mset (concat (map f xs)) =
          mset (concat (map f (take i xs))) + mset (f (xs ! i)) +
          mset (concat (map f (drop (Suc i) xs)))"
    by (subst xs) simp
  then show ?thesis
    by (simp add: upd)
qed

lemma mset_concat_map_update_from_empty [busy_simps]:
  "i < length xs \<Longrightarrow> f (xs ! i) = [] \<Longrightarrow>
     mset (concat (map f (xs[i := x]))) = mset (concat (map f xs)) + mset (f x)"
  by (simp add: mset_concat_map_update)

lemma mset_concat_map_update_to_empty [busy_simps]:
  "i < length xs \<Longrightarrow> f x = [] \<Longrightarrow>
     mset (concat (map f (xs[i := x]))) = mset (concat (map f xs)) - mset (f (xs ! i))"
  by (simp add: mset_concat_map_update)

lemma mset_nth_subseteq_concat_map:
  assumes "i < length xs"
  shows "mset (f (xs ! i)) \<subseteq># mset (concat (map f xs))"
proof -
  have xs: "xs = take i xs @ xs ! i # drop (Suc i) xs"
    using assms by (rule id_take_nth_drop)
  have "mset (concat (map f xs)) =
          mset (concat (map f (take i xs))) + mset (f (xs ! i)) +
          mset (concat (map f (drop (Suc i) xs)))"
    by (subst xs) simp
  then show ?thesis
    by (metis mset_subset_eq_add_left add.commute add.assoc)
qed

lemma mset_concat_map_update_same [busy_simps]:
  "i < length xs \<Longrightarrow> f (xs ! i) = f x \<Longrightarrow>
     mset (concat (map f (xs[i := x]))) = mset (concat (map f xs))"
  using mset_nth_subseteq_concat_map [of i xs f]
  by (simp add: mset_concat_map_update subset_mset.diff_add)

lemma in_concat_map_nth:
  "i < length xs \<Longrightarrow> y \<in> set (f (xs ! i)) \<Longrightarrow> y \<in> set (concat (map f xs))"
  by auto

lemma list_all_update: "list_all P xs \<Longrightarrow> P x \<Longrightarrow> list_all P (xs[i := x])"
  by (auto simp: list_all_iff dest: subsetD [OF set_update_subset_insert])


lemma sum_list_map_update:
  "i < length xs \<Longrightarrow> sum_list (map f (xs[i := x])) + f (xs ! i) = sum_list (map f xs) + (f x :: nat)"
proof -
  assume i: "i < length xs"
  have xs: "xs = take i xs @ xs ! i # drop (Suc i) xs"
    using i by (rule id_take_nth_drop)
  have "sum_list (map f xs) = sum_list (map f (take i xs)) + f (xs ! i) + sum_list (map f (drop (Suc i) xs))"
    by (subst xs) simp
  then show ?thesis
    using i by (simp add: upd_conv_take_nth_drop)
qed


lemma str_contains_sublist: "str_contains n h \<longleftrightarrow> sublist n h"
proof (induction h)
  case Nil
  then show ?case by simp
next
  case (Cons ch cs)
  then show ?case by (auto simp: sublist_Cons_right)
qed

text \<open>Multiset equalities carry length, set and distinctness.\<close>

lemma mset_eq_add_single:
  assumes "mset ys = mset xs + {#p#}"
  shows "length ys = Suc (length xs)" and "set ys = insert p (set xs)"
    and "distinct ys \<longleftrightarrow> distinct xs \<and> p \<notin> set xs"
proof -
  have ys: "mset ys = mset (p # xs)" using assms by simp
  show "length ys = Suc (length xs)"
    using mset_eq_length [OF ys] by simp
  show "set ys = insert p (set xs)"
    using arg_cong [OF ys, of set_mset] by simp
  show "distinct ys \<longleftrightarrow> distinct xs \<and> p \<notin> set xs"
    using mset_eq_imp_distinct_iff [OF ys] by auto
qed

lemma mset_eq_minus_single:
  assumes "mset ys = mset xs - {#p#}" and "p \<in> set xs" and "distinct xs"
  shows "length ys = length xs - 1" and "set ys = set xs - {p}" and "distinct ys"
proof -
  obtain as bs where xs: "xs = as @ p # bs"
    using assms(2) by (meson split_list)
  have ys: "mset ys = mset (as @ bs)"
    using assms(1) by (simp add: xs)
  show "length ys = length xs - 1"
    using mset_eq_length [OF ys] by (simp add: xs)
  show "set ys = set xs - {p}"
    using arg_cong [OF ys, of set_mset] assms(3) by (auto simp: xs)
  show "distinct ys"
    using mset_eq_imp_distinct_iff [OF ys] assms(3) by (simp add: xs)
qed

end
