(* ===== verification/Registry.thy ===== *)
theory Registry
  imports Prelude
begin

text \<open>
  The process-wide state of \<open>chord_federation.app.Application\<close>
  (\<open>src/chord_federation/app.py\<close>, \<open>Application.__init__\<close>), the peer
  registry (the sqlite table \<open>peers\<close> written with \<open>INSERT OR IGNORE\<close> and
  read with \<open>SELECT url FROM peers\<close>), the configuration constants of the
  module, and the dead-peer cache \<open>last_errored\<close> with its 30-second window.
\<close>

section \<open>Configuration constants\<close>

text \<open>\<open>WORKERS = 10\<close> and \<open>LAST_ERRORED_CACHE_TIME = 30\<close> (app.py lines 20--21).\<close>

definition WORKERS :: nat where
  "WORKERS = 10"

definition LAST_ERRORED_CACHE_TIME :: time where
  "LAST_ERRORED_CACHE_TIME = 30"

section \<open>The peer registry\<close>

text \<open>
  The table \<open>peers\<close> has one column, the URL, which is its key: every write is
  \<open>INSERT OR IGNORE INTO peers VALUES(?)\<close>, which leaves the table unchanged
  when the URL is already a row.  The table is a list of rows in insertion
  order; \<open>SELECT url FROM peers\<close> read into a Python \<open>set\<close> is its set.
\<close>

type_synonym peer_table = "url list"

definition insert_or_ignore :: "url \<Rightarrow> peer_table \<Rightarrow> peer_table" where
  "insert_or_ignore p db = (if p \<in> set db then db else db @ [p])"

definition select_peers :: "peer_table \<Rightarrow> url set" where
  "select_peers db = set db"

text \<open>\<open>SELECT 1 FROM peers WHERE url = ?\<close> followed by \<open>fetchone() is None\<close>.\<close>

definition peer_row_missing :: "url \<Rightarrow> peer_table \<Rightarrow> bool" where
  "peer_row_missing p db \<longleftrightarrow> p \<notin> set db"

text \<open>
  \<open>init_db\<close>: after the schema script, the node's own URL and the registry URL
  are inserted (app.py lines 30--38).
\<close>

definition init_db :: "url \<Rightarrow> url \<Rightarrow> peer_table \<Rightarrow> peer_table" where
  "init_db chord_url registry_url db =
     insert_or_ignore registry_url (insert_or_ignore chord_url db)"

text \<open>The registry invariant: no URL is stored twice.\<close>

definition registry_ok :: "peer_table \<Rightarrow> bool" where
  "registry_ok db \<longleftrightarrow> distinct db"

section \<open>The dead-peer cache\<close>

text \<open>
  \<open>last_errored\<close> maps a peer (as a key, see \<open>pykey\<close>) to the timestamp of its last failed contact.  A
  peer is skipped while \<open>peer in last_errored and now - last_errored[peer] <
  LAST_ERRORED_CACHE_TIME\<close> (app.py lines 128--129 and 235--236); a failure
  overwrites the entry (lines 147 and 286).
\<close>

type_synonym dead_cache = "pykey \<rightharpoonup> time"

definition recently_errored :: "dead_cache \<Rightarrow> time \<Rightarrow> pykey \<Rightarrow> bool" where
  "recently_errored le now p =
     (case le p of None \<Rightarrow> False | Some t \<Rightarrow> now - t < LAST_ERRORED_CACHE_TIME)"

definition mark_errored :: "dead_cache \<Rightarrow> pykey \<Rightarrow> time \<Rightarrow> dead_cache" where
  "mark_errored le p now = le(p \<mapsto> now)"

section \<open>The application state\<close>

text \<open>
  The fields of \<open>Application\<close> set in \<open>__init__\<close> (app.py lines 348--356),
  with the database connection replaced by the contents of its table.
\<close>

record app =
  db :: peer_table
  last_peers_update :: time
  peer_cache_invalidated :: bool
  connected_to_peer_network :: bool
  fetching_peers :: bool
  last_errored :: dead_cache
  contacting :: "pykey set"
  notifying :: "pykey set"

text \<open>
  \<open>Application(db, base_url)\<close>: \<open>last_peers_update\<close> is
  \<open>datetime.utcfromtimestamp(0)\<close>, the epoch, and every flag and set starts
  empty.
\<close>

definition app_init :: "peer_table \<Rightarrow> app" where
  "app_init d =
     \<lparr>db = d, last_peers_update = 0, peer_cache_invalidated = False,
      connected_to_peer_network = False, fetching_peers = False,
      last_errored = Map.empty, contacting = {}, notifying = {}\<rparr>"

section \<open>Lemmas\<close>

lemma set_insert_or_ignore [simp]: "set (insert_or_ignore p d) = insert p (set d)"
  by (auto simp: insert_or_ignore_def)

lemma distinct_insert_or_ignore [simp]: "distinct (insert_or_ignore p d) = distinct d"
  by (simp add: insert_or_ignore_def)

lemma insert_or_ignore_present: "p \<in> set d \<Longrightarrow> insert_or_ignore p d = d"
  by (simp add: insert_or_ignore_def)

lemma registry_ok_insert_or_ignore [intro]:
  "registry_ok d \<Longrightarrow> registry_ok (insert_or_ignore p d)"
  by (simp add: registry_ok_def)

lemma recently_errored_None [simp]: "le p = None \<Longrightarrow> \<not> recently_errored le now p"
  by (simp add: recently_errored_def)

lemma recently_errored_mark_other [simp]:
  "q \<noteq> p \<Longrightarrow> recently_errored (mark_errored le p t) now q = recently_errored le now q"
  by (simp add: recently_errored_def mark_errored_def)

lemma WORKERS_pos [simp]: "0 < WORKERS"
  by (simp add: WORKERS_def)

text \<open>Inserting a URL twice leaves the table as one insertion did.\<close>

lemma insert_or_ignore_idem:
  "insert_or_ignore p (insert_or_ignore p d) = insert_or_ignore p d"
  by (simp add: insert_or_ignore_present)

text \<open>
  After \<open>init_db\<close> on an empty table, the node's own URL and the registry URL
  are rows, and the table holds no duplicate.
\<close>

lemma init_db_seeds:
  "set (init_db u r []) = {u, r} \<and> registry_ok (init_db u r [])"
  by (auto simp: init_db_def registry_ok_def)

text \<open>
  Right after a failure at time \<open>t\<close>, the peer counts as recently errored
  exactly while less than \<open>LAST_ERRORED_CACHE_TIME\<close> seconds have passed.
\<close>

lemma recently_errored_mark:
  "recently_errored (mark_errored le p t) now p \<longleftrightarrow> now - t < 30"
  by (simp add: recently_errored_def mark_errored_def LAST_ERRORED_CACHE_TIME_def)

end
