(* ===== verification/Gossip.thy ===== *)
theory Gossip
  imports Registry
begin

text \<open>
  The gossip engine: one refresh cycle of \<open>Application.get_peers\<close>
  (\<open>src/chord_federation/app.py\<close> lines 315--331) and the pool of
  \<open>WORKERS\<close> coroutines \<open>Application.peer_worker\<close> (lines 227--304) that
  share the queue \<open>peers_to_check\<close>.

  Tornado runs the coroutines on one thread; a coroutine gives up the thread
  only at an \<open>await\<close> that is not already complete: a \<open>get\<close> on the empty
  queue and the two \<open>client.fetch\<close> calls.  So the code between two such points
  runs atomically, and a cycle is a sequence of atomic \<open>events\<close>:
  \<^item> \<open>Deq i t\<close>: worker \<open>i\<close>, waiting in \<open>async for\<close>, takes the head of the
    queue at clock reading \<open>t\<close> and runs the checks of lines 231--255 up to the
    POST (or skips the item, or exits on the sentinel);
  \<^item> \<open>PostDone i t r\<close>: the notify POST of worker \<open>i\<close> returns (\<open>r\<close>);
  \<^item> \<open>GetDone i t r\<close>: the GET of the peer list returns, and the worker runs
    lines 275--304 to the end of the iteration.
  Any order of events is allowed, so every tornado schedule is a sequence of
  events of the model (the worker to which tornado hands an item is the one
  whose \<open>Deq\<close> takes it).  An event whose worker is not in the right phase is
  not enabled (\<open>None\<close>).  Exceptions that escape a coroutine
  (\<open>set.remove\<close>, \<open>task_done\<close>) leave the worker \<open>Crashed\<close>.  The
  peers are Python values, held as their keys (\<open>pykey\<close>): the snapshot's
  URLs are strings, and a peer may report any hashable item.
\<close>

section \<open>State of a cycle\<close>

text \<open>
  A worker is parked in \<open>async for\<close> (with its local variable \<open>peers\<close>,
  which each worker rebinds with \<open>peers = peers.union(peer_peers)\<close>), waiting
  for the POST or the GET to a peer, returned on the sentinel, or crashed.
\<close>

datatype worker =
    Waiting "pykey set"
  | Posting "pykey set" pykey
  | Getting "pykey set" pykey
  | Exited
  | Crashed py_error

text \<open>
  The locals of \<open>get_peers\<close> shared with the workers: the snapshot
  \<open>peers\<close> of the table, the queue (items are peers, as keys, or the
  sentinel \<open>None\<close>)
  with the queue's count of unfinished tasks, \<open>peers_to_check_set\<close>,
  \<open>attempted_contact\<close> and \<open>results\<close>; and the pool of workers.
\<close>

record cycle =
  cyc_peers :: peer_table
  to_check :: "pykey option list"
  unfinished :: nat
  to_check_set :: "pykey set"
  attempted :: "pykey set"
  results :: "bool list"
  workers :: "worker list"

type_synonym gstate = "app \<times> cycle"

text \<open>
  What the network answers.  The POST raises on a transport error or a non-2xx
  status (\<open>raise_error=True\<close>); the GET raises on the same, and the parse
  \<open>json.loads(r.body)["peers"]\<close> raises on a body that is not a JSON object
  with a \<open>peers\<close> key (a \<open>KeyError\<close>, \<open>TypeError\<close> or \<open>ValueError\<close>, all
  caught by \<open>except Exception\<close>; the \<open>except IndexError\<close> branch of line 280
  cannot be reached by indexing with a string key).  What the parse returns is
  then passed to \<open>peers.union\<close> (line 289), outside the \<open>try\<close>: a value that
  is not iterable, or has an unhashable item, raises \<open>TypeError\<close> out of the
  coroutine (\<open>GetCrash\<close>).
\<close>

datatype post_outcome = PostOk | PostFailed

datatype get_outcome = GetPeers "pykey list" | GetBadBody | GetFailed | GetCrash py_error

text \<open>
  Lines 278 and 289--292 on a body that arrived (\<open>None\<close>: it is not JSON): the
  outcome the worker acts on.  A string is iterated by characters and a dict by
  keys, as \<open>union\<close> and the \<open>for\<close> loop do; \<open>union\<close> hashes every item,
  so the peers go on as keys.  Items need not be strings: a number is
  queued like a URL (and its fetch fails), and \<open>null\<close> is queued as
  \<open>None\<close>, the workers' exit sentinel (\<open>queue_item\<close>).
\<close>

definition read_get_body :: "json option \<Rightarrow> get_outcome" where
  "read_get_body b =
     (case b of
        None \<Rightarrow> GetBadBody
      | Some j \<Rightarrow>
          (case py_getitem j ''peers'' of
             Inl e \<Rightarrow> GetBadBody
           | Inr v \<Rightarrow>
               (case py_iter v of
                  Inl e \<Rightarrow> GetCrash e
                | Inr xs \<Rightarrow>
                    (case hash_keys xs of Inl e \<Rightarrow> GetCrash e | Inr L \<Rightarrow> GetPeers L))))"

text \<open>
  The notify payload of line 266, \<open>{"peers": list(peers), "self": CHORD_URL}\<close>,
  with \<open>ps\<close> the order in which the worker's set \<open>peers\<close> iterates.
\<close>

definition notify_payload :: "url \<Rightarrow> pykey list \<Rightarrow> json" where
  "notify_payload chord_url ps = JObj [(''peers'', JArr (map key_json ps)), (''self'', JStr chord_url)]"

datatype gevent =
    Deq nat time
  | PostDone nat time post_outcome
  | GetDone nat time get_outcome

section \<open>Starting a cycle\<close>

text \<open>
  Lines 315--328: every peer of the snapshot is put on the queue and into
  \<open>peers_to_check_set\<close>, \<open>attempted_contact = {CHORD_URL}\<close>, and
  \<open>WORKERS\<close> workers start with the snapshot as their \<open>peers\<close>.  The
  argument \<open>d\<close> is the snapshot in the order in which the set iterates
  (\<open>get_peers_start\<close> of theory \<open>Refresh\<close> takes it as a parameter).
\<close>

definition cycle_start :: "url \<Rightarrow> peer_table \<Rightarrow> cycle" where
  "cycle_start chord_url d =
     \<lparr>cyc_peers = d, to_check = map (Some \<circ> KStr) d, unfinished = length d,
      to_check_set = KStr ` set d, attempted = {KStr chord_url}, results = [],
      workers = replicate WORKERS (Waiting (KStr ` set d))\<rparr>"

section \<open>The worker's steps\<close>

text \<open>
  Skipping an item (lines 239--241 and 244--245):
  \<open>peers_to_check_set.remove(peer)\<close> then \<open>peers_to_check.task_done()\<close>.
\<close>

definition skip_item :: "nat \<Rightarrow> pykey \<Rightarrow> gstate \<Rightarrow> gstate" where
  "skip_item i p s =
     (let (a, c) = s in
      case set_remove p (to_check_set c) of
        Inl e \<Rightarrow> (a, c\<lparr>workers := (workers c)[i := Crashed e]\<rparr>)
      | Inr tcs \<Rightarrow>
          (case task_done (unfinished c) of
             Inl e \<Rightarrow> (a, c\<lparr>to_check_set := tcs, workers := (workers c)[i := Crashed e]\<rparr>)
           | Inr n \<Rightarrow> (a, c\<lparr>to_check_set := tcs, unfinished := n\<rparr>)))"

text \<open>
  The checks on a dequeued item (lines 231--255): the sentinel ends the
  worker; a recently failed peer and an already attempted peer are skipped; a
  peer some worker is contacting is dropped with neither \<open>task_done\<close> nor a
  re-queue (the \<open>continue\<close> of line 253); any other peer is added to
  \<open>contacting\<close> and the worker sends the notify POST.
\<close>

fun take_item :: "nat \<Rightarrow> time \<Rightarrow> pykey set \<Rightarrow> pykey option \<Rightarrow> gstate \<Rightarrow> gstate" where
  "take_item i now P None (a, c) = (a, c\<lparr>workers := (workers c)[i := Exited]\<rparr>)"
| "take_item i now P (Some p) (a, c) =
     (if recently_errored (last_errored a) now p then skip_item i p (a, c)
      else if p \<in> attempted c then skip_item i p (a, c)
      else if p \<in> contacting a then (a, c)
      else (a\<lparr>contacting := insert p (contacting a)\<rparr>,
            c\<lparr>workers := (workers c)[i := Posting P p]\<rparr>))"

definition worker_dequeue :: "nat \<Rightarrow> time \<Rightarrow> gstate \<Rightarrow> gstate option" where
  "worker_dequeue i now s =
     (let (a, c) = s in
      if i < length (workers c) then
        (case (workers c ! i, to_check c) of
           (Waiting P, item # rest) \<Rightarrow> Some (take_item i now P item (a, c\<lparr>to_check := rest\<rparr>))
         | _ \<Rightarrow> None)
      else None)"

text \<open>
  What \<open>put(p)\<close> puts on the queue: a reported \<open>null\<close> is the object
  \<open>None\<close>, which the workers take for the exit sentinel (line 232).
\<close>

definition queue_item :: "pykey \<Rightarrow> pykey option" where
  "queue_item q = (if q = KNone then None else Some q)"

text \<open>
  The loop of lines 292--296 over the reported peers: a peer that is not in
  \<open>peers_to_check_set\<close>, not being contacted and not attempted is put on the
  queue (which counts one more unfinished task) and into the set, and the
  iteration's \<open>new_peer\<close> flag is raised.
\<close>

fun enqueue_new :: "pykey set \<Rightarrow> pykey list \<Rightarrow> bool \<Rightarrow> cycle \<Rightarrow> bool \<times> cycle" where
  "enqueue_new ct [] nw c = (nw, c)"
| "enqueue_new ct (q # qs) nw c =
     (if q \<notin> to_check_set c \<and> q \<notin> ct \<and> q \<notin> attempted c
      then enqueue_new ct qs True
             (c\<lparr>to_check := to_check c @ [queue_item q], unfinished := Suc (unfinished c),
                to_check_set := insert q (to_check_set c)\<rparr>)
      else enqueue_new ct qs nw c)"

text \<open>
  The end of an iteration that contacted peer \<open>p\<close> (lines 289--304), with the
  reported peers \<open>L\<close> (empty after an error): union into the worker's
  \<open>peers\<close>, the loop above, \<open>results.append(new_peer)\<close>,
  \<open>attempted_contact.add(peer)\<close>, \<open>self.contacting.remove(peer)\<close>,
  \<open>peers_to_check_set.remove(peer)\<close> and \<open>task_done()\<close>, in this order.
\<close>

definition finish_contact :: "nat \<Rightarrow> pykey set \<Rightarrow> pykey \<Rightarrow> pykey list \<Rightarrow> gstate \<Rightarrow> gstate" where
  "finish_contact i P p L s =
     (let (a, c) = s;
          (nw, c1) = enqueue_new (contacting a) L False c;
          c2 = c1\<lparr>results := results c1 @ [nw], attempted := insert p (attempted c1)\<rparr>
      in case set_remove p (contacting a) of
           Inl e \<Rightarrow> (a, c2\<lparr>workers := (workers c2)[i := Crashed e]\<rparr>)
         | Inr ct \<Rightarrow>
             (case set_remove p (to_check_set c2) of
                Inl e \<Rightarrow> (a\<lparr>contacting := ct\<rparr>, c2\<lparr>workers := (workers c2)[i := Crashed e]\<rparr>)
              | Inr tcs \<Rightarrow>
                  (case task_done (unfinished c2) of
                     Inl e \<Rightarrow> (a\<lparr>contacting := ct\<rparr>,
                               c2\<lparr>to_check_set := tcs, workers := (workers c2)[i := Crashed e]\<rparr>)
                   | Inr n \<Rightarrow> (a\<lparr>contacting := ct\<rparr>,
                               c2\<lparr>to_check_set := tcs, unfinished := n,
                                  workers := (workers c2)[i := Waiting (P \<union> set L)]\<rparr>))))"

text \<open>
  The POST returns (lines 262--269): on success the worker sends the GET; on
  an exception the peer is recorded in \<open>last_errored\<close> (line 286) and the
  iteration ends with no reported peers.
\<close>

definition post_done :: "nat \<Rightarrow> time \<Rightarrow> post_outcome \<Rightarrow> gstate \<Rightarrow> gstate option" where
  "post_done i now r s =
     (let (a, c) = s in
      if i < length (workers c) then
        (case workers c ! i of
           Posting P p \<Rightarrow>
             Some (case r of
                     PostOk \<Rightarrow> (a, c\<lparr>workers := (workers c)[i := Getting P p]\<rparr>)
                   | PostFailed \<Rightarrow>
                       finish_contact i P p []
                         (a\<lparr>last_errored := mark_errored (last_errored a) p now\<rparr>, c))
         | _ \<Rightarrow> None)
      else None)"

text \<open>
  The GET returns (lines 271--287): \<open>connected_to_peer_network\<close> is set as
  soon as the response arrives, before its body is parsed; a body that does not
  parse, like a failed request, records the peer in \<open>last_errored\<close>; a
  \<open>TypeError\<close> out of \<open>peers.union\<close> ends the coroutine, leaving the peer in
  \<open>contacting\<close> and its task unfinished.
\<close>

definition get_done :: "nat \<Rightarrow> time \<Rightarrow> get_outcome \<Rightarrow> gstate \<Rightarrow> gstate option" where
  "get_done i now r s =
     (let (a, c) = s in
      if i < length (workers c) then
        (case workers c ! i of
           Getting P p \<Rightarrow>
             Some (case r of
                     GetPeers L \<Rightarrow>
                       finish_contact i P p L (a\<lparr>connected_to_peer_network := True\<rparr>, c)
                   | GetBadBody \<Rightarrow>
                       finish_contact i P p []
                         (a\<lparr>connected_to_peer_network := True,
                            last_errored := mark_errored (last_errored a) p now\<rparr>, c)
                   | GetFailed \<Rightarrow>
                       finish_contact i P p []
                         (a\<lparr>last_errored := mark_errored (last_errored a) p now\<rparr>, c)
                   | GetCrash e \<Rightarrow>
                       (a\<lparr>connected_to_peer_network := True\<rparr>,
                        c\<lparr>workers := (workers c)[i := Crashed e]\<rparr>))
         | _ \<Rightarrow> None)
      else None)"

fun gstep :: "gstate \<Rightarrow> gevent \<Rightarrow> gstate option" where
  "gstep s (Deq i t) = worker_dequeue i t s"
| "gstep s (PostDone i t r) = post_done i t r s"
| "gstep s (GetDone i t r) = get_done i t r s"

fun grun :: "gstate \<Rightarrow> gevent list \<Rightarrow> gstate option" where
  "grun s [] = Some s"
| "grun s (e # es) = (case gstep s e of None \<Rightarrow> None | Some s' \<Rightarrow> grun s' es)"

section \<open>Invariant and termination measure\<close>

text \<open>
  The peers a worker is contacting (one for a worker between its POST and the
  end of its iteration), whether a worker still runs, the URLs on the queue,
  and the invariant of a running cycle.  The measure weighs the peers of a
  universe \<open>U\<close> not yet attempted above the number of queued peers and the
  phases of the workers; \<open>new_peers\<close> is the closed form of the enqueue loop.
\<close>


fun wbusy :: "worker \<Rightarrow> pykey list" where
  "wbusy (Posting P p) = [p]"
| "wbusy (Getting P p) = [p]"
| "wbusy _ = []"

definition busy :: "worker list \<Rightarrow> pykey list" where
  "busy ws = concat (map wbusy ws)"

fun running :: "worker \<Rightarrow> bool" where
  "running (Waiting P) = True"
| "running (Posting P p) = True"
| "running (Getting P p) = True"
| "running _ = False"

fun queued :: "pykey option list \<Rightarrow> pykey list" where
  "queued [] = []"
| "queued (None # xs) = queued xs"
| "queued (Some p # xs) = p # queued xs"

definition cycle_inv :: "gstate \<Rightarrow> bool" where
  "cycle_inv s \<longleftrightarrow>
     (let (a, c) = s in
      None \<notin> set (to_check c) \<and>
      distinct (queued (to_check c) @ busy (workers c)) \<and>
      to_check_set c = set (queued (to_check c)) \<union> set (busy (workers c)) \<and>
      contacting a = set (busy (workers c)) \<and>
      set (busy (workers c)) \<inter> attempted c = {} \<and>
      unfinished c = length (to_check c) + length (busy (workers c)) \<and>
      list_all running (workers c))"

fun wphase :: "worker \<Rightarrow> nat" where
  "wphase (Posting P p) = 3"
| "wphase (Getting P p) = 2"
| "wphase (Waiting P) = 1"
| "wphase _ = 0"

definition gmeasure :: "pykey set \<Rightarrow> cycle \<Rightarrow> nat" where
  "gmeasure U c =
     card (U - attempted c) * (3 * card U + 3 * length (workers c) + 1) +
     3 * length (queued (to_check c)) + sum_list (map wphase (workers c))"

text \<open>
  An event whose peer answered a body the worker can digest: one that does not
  make \<open>peers.union\<close> raise and reports no \<open>null\<close>, which would stop
  the worker that dequeues it.
\<close>

fun benign :: "gevent \<Rightarrow> bool" where
  "benign (GetDone i t (GetCrash e)) = False"
| "benign (GetDone i t (GetPeers L)) = (KNone \<notin> set L)"
| "benign _ = True"

fun event_peers :: "gevent \<Rightarrow> pykey list" where
  "event_peers (GetDone i t (GetPeers L)) = L"
| "event_peers _ = []"

fun new_peers :: "'a set \<Rightarrow> 'a list \<Rightarrow> 'a list" where
  "new_peers K [] = []"
| "new_peers K (q # qs) = (if q \<in> K then new_peers K qs else q # new_peers (insert q K) qs)"


text \<open>The fields of the application state that the gossip workers never write.\<close>

definition app_frame :: "app \<Rightarrow> app \<Rightarrow> bool" where
  "app_frame a a' \<longleftrightarrow> db a' = db a \<and> last_peers_update a' = last_peers_update a \<and>
     peer_cache_invalidated a' = peer_cache_invalidated a \<and> fetching_peers a' = fetching_peers a \<and>
     notifying a' = notifying a"

section \<open>Example cycle\<close>

text \<open>
  A node \<open>a/\<close> whose table holds itself and \<open>b/\<close>: worker 0 skips itself,
  contacts \<open>b/\<close>, which reports \<open>c/\<close>; worker 1 contacts \<open>c/\<close>, whose
  notify POST fails.
\<close>

definition ex_app :: app where
  "ex_app = app_init [''a/'', ''b/'']"

definition ex_cycle :: cycle where
  "ex_cycle = cycle_start ''a/'' [''a/'', ''b/'']"

definition ex_events :: "gevent list" where
  "ex_events = [Deq 0 1, Deq 0 1, PostDone 0 2 PostOk, GetDone 0 3 (GetPeers [KStr ''c/'', KStr ''a/'']),
                Deq 1 4, PostDone 1 5 PostFailed]"

section \<open>Lemmas\<close>

lemma set_new_peers [simp]: "set (new_peers K L) = set L - K"
  by (induction L arbitrary: K) auto

lemma distinct_new_peers [simp]: "distinct (new_peers K L)"
  by (induction L arbitrary: K) auto

lemma enqueue_new_eq:
  "enqueue_new ct L nw c =
     (let N = new_peers (to_check_set c \<union> ct \<union> attempted c) L in
      (nw \<or> N \<noteq> [],
       c\<lparr>to_check := to_check c @ map queue_item N, unfinished := unfinished c + length N,
         to_check_set := to_check_set c \<union> set N\<rparr>))"
proof (induction L arbitrary: nw c)
  case Nil
  then show ?case by simp
next
  case (Cons q qs)
  show ?case
  proof (cases "q \<notin> to_check_set c \<and> q \<notin> ct \<and> q \<notin> attempted c")
    case True
    have K: "insert q (to_check_set c) \<union> ct \<union> attempted c = insert q (to_check_set c \<union> ct \<union> attempted c)"
      by auto
    from True show ?thesis by (simp add: Cons.IH K Let_def)
  next
    case False
    then show ?thesis by (auto simp: Cons.IH Let_def)
  qed
qed

lemma busy_nth: "i < length ws \<Longrightarrow> wbusy (ws ! i) = [p] \<Longrightarrow> p \<in> set (busy ws)"
  unfolding busy_def by (metis in_concat_map_nth list.set_intros(1))

lemma finish_contact_eq:
  assumes "p \<in> contacting a" "p \<in> to_check_set c" "0 < unfinished c"
  shows "finish_contact i P p L (a, c) =
     (let N = new_peers (to_check_set c \<union> contacting a \<union> attempted c) L in
      (a\<lparr>contacting := contacting a - {p}\<rparr>,
       c\<lparr>to_check := to_check c @ map queue_item N, unfinished := unfinished c + length N - 1,
         to_check_set := (to_check_set c \<union> set N) - {p}, attempted := insert p (attempted c),
         results := results c @ [N \<noteq> []],
         workers := (workers c)[i := Waiting (P \<union> set L)]\<rparr>))"
  using assms by (simp add: finish_contact_def enqueue_new_eq Let_def task_done_def)

lemma finish_contact_ok:
  assumes inv: "cycle_inv (a, c)" and i: "i < length (workers c)"
    and w: "wbusy (workers c ! i) = [p]"
  shows "finish_contact i P p L (a, c) =
     (let N = new_peers (to_check_set c \<union> contacting a \<union> attempted c) L in
      (a\<lparr>contacting := contacting a - {p}\<rparr>,
       c\<lparr>to_check := to_check c @ map queue_item N, unfinished := unfinished c + length N - 1,
         to_check_set := (to_check_set c \<union> set N) - {p}, attempted := insert p (attempted c),
         results := results c @ [N \<noteq> []],
         workers := (workers c)[i := Waiting (P \<union> set L)]\<rparr>))"
proof -
  have p: "p \<in> set (busy (workers c))" using i w by (rule busy_nth)
  with inv have "p \<in> contacting a" "p \<in> to_check_set c" "0 < unfinished c"
    by (auto simp: cycle_inv_def)
  then show ?thesis by (rule finish_contact_eq)
qed

lemma busy_update_idle:
  assumes "i < length ws" "wbusy (ws ! i) = [p]" "wbusy w = []" "distinct (busy ws)"
  shows "set (busy (ws[i := w])) = set (busy ws) - {p}"
    and "length (busy (ws[i := w])) = length (busy ws) - 1"
    and "distinct (busy (ws[i := w]))"
proof -
  have m: "mset (busy (ws[i := w])) = mset (busy ws) - {#p#}"
    using assms(1-3) by (simp add: busy_def mset_concat_map_update_to_empty)
  have p: "p \<in> set (busy ws)" using assms(1,2) by (rule busy_nth)
  show "set (busy (ws[i := w])) = set (busy ws) - {p}"
    and "length (busy (ws[i := w])) = length (busy ws) - 1"
    and "distinct (busy (ws[i := w]))"
    using mset_eq_minus_single [OF m p assms(4)] by simp_all
qed

lemma cycle_invI:
  assumes "None \<notin> set (to_check c)" "distinct (queued (to_check c) @ busy (workers c))"
    "to_check_set c = set (queued (to_check c)) \<union> set (busy (workers c))"
    "contacting a = set (busy (workers c))" "set (busy (workers c)) \<inter> attempted c = {}"
    "unfinished c = length (to_check c) + length (busy (workers c))"
    "list_all running (workers c)"
  shows "cycle_inv (a, c)"
  using assms by (simp add: cycle_inv_def)

lemma queued_append [simp]: "queued (xs @ ys) = queued xs @ queued ys"
  by (induction xs rule: queued.induct) simp_all

lemma queued_map_Some [simp]: "queued (map Some N) = N"
  by (induction N) simp_all

lemma queued_map_Some_comp [simp]: "queued (map (Some \<circ> f) d) = map f d"
  by (induction d) simp_all

lemma queued_map_queue_item [simp]: "queued (map queue_item N) = filter (\<lambda>q. q \<noteq> KNone) N"
  by (induction N) (simp_all add: queue_item_def)

lemma map_queue_item_Some: "KNone \<notin> set N \<Longrightarrow> map queue_item N = map Some N"
  by (induction N) (auto simp: queue_item_def)

lemma KNone_new_peers: "KNone \<notin> set L \<Longrightarrow> map queue_item (new_peers K L) = map Some (new_peers K L)"
  by (rule map_queue_item_Some) simp

lemma finish_contact_inv:
  assumes inv: "cycle_inv (a, c)" and i: "i < length (workers c)"
    and w: "wbusy (workers c ! i) = [p]" and kn: "KNone \<notin> set L"
  shows "cycle_inv (finish_contact i P p L (a, c))"
proof -
  define N where "N = new_peers (to_check_set c \<union> contacting a \<union> attempted c) L"
  define ws' where "ws' = (workers c)[i := Waiting (P \<union> set L)]"
  let ?Q = "queued (to_check c)" and ?B = "busy (workers c)"
  have p: "p \<in> set ?B" using i w by (rule busy_nth)
  from inv have dQB: "distinct (?Q @ ?B)" and tcs: "to_check_set c = set ?Q \<union> set ?B"
    and ct: "contacting a = set ?B" and att: "set ?B \<inter> attempted c = {}"
    and unf: "unfinished c = length (to_check c) + length ?B"
    and run: "list_all running (workers c)" and nn: "None \<notin> set (to_check c)"
    by (simp_all add: cycle_inv_def)
  have B': "set (busy ws') = set ?B - {p}" "length (busy ws') = length ?B - 1"
    "distinct (busy ws')"
    using busy_update_idle [OF i w _, of "Waiting (P \<union> set L)"] dQB by (simp_all add: ws'_def)
  have N: "set N \<inter> (set ?Q \<union> set ?B) = {}" "distinct N"
    using tcs by (auto simp: N_def)
  have pQ: "p \<notin> set ?Q" using dQB p by auto
  have pN: "p \<notin> set N" using p ct by (simp add: N_def)
  have len: "0 < length ?B" using p by (cases ?B) auto
  then have arith: "length (to_check c) + length ?B + length N - Suc 0 =
      length (to_check c) + length N + (length ?B - Suc 0)" by arith
  define c' where "c' = c\<lparr>to_check := to_check c @ map Some N\<rparr>"
  have q': "queued (to_check c') = ?Q @ N" by (simp add: c'_def)
  have eq: "finish_contact i P p L (a, c) =
     (a\<lparr>contacting := contacting a - {p}\<rparr>,
      c'\<lparr>unfinished := unfinished c + length N - 1,
          to_check_set := (to_check_set c \<union> set N) - {p}, attempted := insert p (attempted c),
          results := results c @ [N \<noteq> []], workers := ws'\<rparr>)"
    using finish_contact_ok [OF inv i w, of P L] KNone_new_peers [OF kn]
    by (simp add: N_def ws'_def c'_def Let_def)
  show ?thesis
    unfolding eq
  proof (rule cycle_invI)
    show "None \<notin> set (to_check (c'\<lparr>unfinished := unfinished c + length N - 1,
          to_check_set := (to_check_set c \<union> set N) - {p}, attempted := insert p (attempted c),
          results := results c @ [N \<noteq> []], workers := ws'\<rparr>))"
      using nn by (auto simp: c'_def)
  qed (use dQB N B' tcs pQ pN ct att unf arith run q' in
         \<open>auto simp: c'_def ws'_def list_all_update\<close>)
qed

lemma busy_update_busy:
  assumes "i < length ws" "wbusy (ws ! i) = []" "wbusy w = [p]"
  shows "set (busy (ws[i := w])) = insert p (set (busy ws))"
    and "length (busy (ws[i := w])) = Suc (length (busy ws))"
    and "distinct (busy (ws[i := w])) \<longleftrightarrow> distinct (busy ws) \<and> p \<notin> set (busy ws)"
proof -
  have m: "mset (busy (ws[i := w])) = mset (busy ws) + {#p#}"
    using assms by (simp add: busy_def mset_concat_map_update_from_empty)
  show "set (busy (ws[i := w])) = insert p (set (busy ws))"
    and "length (busy (ws[i := w])) = Suc (length (busy ws))"
    and "distinct (busy (ws[i := w])) \<longleftrightarrow> distinct (busy ws) \<and> p \<notin> set (busy ws)"
    using mset_eq_add_single [OF m] by simp_all
qed

lemma busy_update_same:
  assumes "i < length ws" "wbusy (ws ! i) = wbusy w"
  shows "mset (busy (ws[i := w])) = mset (busy ws)"
  using assms by (simp add: busy_def mset_concat_map_update_same)

lemma skip_item_ok:
  "p \<in> to_check_set c \<Longrightarrow> 0 < unfinished c \<Longrightarrow>
     skip_item i p (a, c) = (a, c\<lparr>to_check_set := to_check_set c - {p}, unfinished := unfinished c - 1\<rparr>)"
  by (simp add: skip_item_def task_done_def)

lemma worker_dequeue_inv:
  assumes inv: "cycle_inv (a, c)" and step: "worker_dequeue i t (a, c) = Some s'"
  shows "cycle_inv s'"
proof -
  obtain P item rest where i: "i < length (workers c)" and w: "workers c ! i = Waiting P"
    and q: "to_check c = item # rest" and s': "s' = take_item i t P item (a, c\<lparr>to_check := rest\<rparr>)"
    using step by (auto simp: worker_dequeue_def split: if_splits worker.splits list.splits)
  let ?B = "busy (workers c)"
  from inv q obtain p where item: "item = Some p"
    by (cases item) (auto simp: cycle_inv_def)
  from inv q item have dQB: "distinct (p # queued rest @ ?B)"
    and tcs: "to_check_set c = insert p (set (queued rest) \<union> set ?B)"
    and ct: "contacting a = set ?B" and att: "set ?B \<inter> attempted c = {}"
    and unf: "unfinished c = Suc (length rest + length ?B)"
    and run: "list_all running (workers c)" and nn: "None \<notin> set rest"
    by (simp_all add: cycle_inv_def)
  have skip: "cycle_inv (skip_item i p (a, c\<lparr>to_check := rest\<rparr>))"
    using dQB tcs ct att unf run nn
    by (auto simp: skip_item_ok cycle_inv_def)
  show ?thesis
  proof (cases "recently_errored (last_errored a) t p \<or> p \<in> attempted c")
    case True
    then show ?thesis using s' item skip by auto
  next
    case False
    have pB: "p \<notin> contacting a" using dQB ct by simp
    let ?ws = "(workers c)[i := Posting P p]"
    have B': "set (busy ?ws) = insert p (set ?B)" "length (busy ?ws) = Suc (length ?B)"
      "distinct (busy ?ws)"
      using busy_update_busy [OF i, of "Posting P p" p] w dQB by simp_all
    have "cycle_inv (a\<lparr>contacting := insert p (contacting a)\<rparr>, c\<lparr>to_check := rest, workers := ?ws\<rparr>)"
      using B' dQB tcs ct att unf run nn False
      by (auto simp: cycle_inv_def list_all_update)
    with False pB show ?thesis using s' item by simp
  qed
qed

lemma post_done_inv:
  assumes inv: "cycle_inv (a, c)" and step: "post_done i t r (a, c) = Some s'"
  shows "cycle_inv s'"
proof -
  obtain P p where i: "i < length (workers c)" and w: "workers c ! i = Posting P p"
    using step by (auto simp: post_done_def split: if_splits worker.splits)
  show ?thesis
  proof (cases r)
    case PostOk
    let ?ws = "(workers c)[i := Getting P p]"
    have m: "mset (busy ?ws) = mset (busy (workers c))"
      using busy_update_same [OF i] w by simp
    have "cycle_inv (a, c\<lparr>workers := ?ws\<rparr>)"
      using inv mset_eq_setD [OF m] mset_eq_length [OF m] mset_eq_imp_distinct_iff [OF m]
      by (auto simp: cycle_inv_def list_all_update)
    then show ?thesis using step PostOk i w by (simp add: post_done_def)
  next
    case PostFailed
    let ?a = "a\<lparr>last_errored := mark_errored (last_errored a) p t\<rparr>"
    have "cycle_inv (?a, c)" using inv by (simp add: cycle_inv_def)
    then have "cycle_inv (finish_contact i P p [] (?a, c))"
      using i w by (intro finish_contact_inv) simp_all
    then show ?thesis using step PostFailed i w by (simp add: post_done_def)
  qed
qed

lemma get_done_inv:
  assumes inv: "cycle_inv (a, c)" and step: "get_done i t r (a, c) = Some s'"
    and r: "benign (GetDone i t r)"
  shows "cycle_inv s'"
proof -
  obtain P p where i: "i < length (workers c)" and w: "workers c ! i = Getting P p"
    using step by (auto simp: get_done_def split: if_splits worker.splits)
  have fin: "cycle_inv (finish_contact i P p L (a', c))"
    if "cycle_inv (a', c)" "KNone \<notin> set L" for a' L
    using that i w by (intro finish_contact_inv) simp_all
  have a: "cycle_inv (a\<lparr>connected_to_peer_network := x\<rparr>, c)"
    "cycle_inv (a\<lparr>last_errored := y\<rparr>, c)"
    "cycle_inv (a\<lparr>connected_to_peer_network := x, last_errored := y\<rparr>, c)" for x y
    using inv by (simp_all add: cycle_inv_def)
  show ?thesis
    using step i w fin a r by (cases r) (auto simp: get_done_def)
qed

lemma gstep_inv: "cycle_inv s \<Longrightarrow> benign e \<Longrightarrow> gstep s e = Some s' \<Longrightarrow> cycle_inv s'"
  by (cases s; cases e) (auto intro: worker_dequeue_inv post_done_inv get_done_inv)

lemma grun_inv:
  "cycle_inv s \<Longrightarrow> list_all benign es \<Longrightarrow> grun s es = Some s' \<Longrightarrow> cycle_inv s'"
proof (induction es arbitrary: s)
  case (Cons e es)
  then show ?case by (auto split: option.splits dest: gstep_inv)
qed simp

text \<open>
  C1. The gossip invariant holds after every interleaving of worker steps in which every peer's GET answer is one the worker digests (benign events: no answer whose peers value makes peers.union raise, and no reported null): the queue and the peers being contacted are distinct and together form peers_to_check_set, contacting is exactly the set of peers some worker is contacting, none of them is attempted, the queue counts exactly one unfinished task per queued or in-progress peer, and every worker is still running. (Without that premise the invariant fails, as theory Gossip_Faults shows.)
\<close>

theorem grun_cycle_inv:
  "cycle_inv s \<Longrightarrow> list_all benign es \<Longrightarrow> grun s es = Some s' \<Longrightarrow> cycle_inv s'"
proof (induction es arbitrary: s)
  case Nil
  then show ?case by simp
next
  case (Cons e es)
  then show ?case by (auto split: option.splits intro: gstep_inv)
qed

lemma cycle_inv_queue:
  assumes "cycle_inv (a, c)"
  shows "None \<notin> set (to_check c)" "set (queued (to_check c)) \<subseteq> to_check_set c"
    "length (to_check c) \<le> unfinished c" "set (queued (to_check c)) \<inter> contacting a = {}"
  using assms by (auto simp: cycle_inv_def)

text \<open>
  The three outcomes of a dequeue on a queue whose peers are all in
  \<open>peers_to_check_set\<close>, counted as unfinished and not being contacted: a
  skip, a new contact, or the exit on a \<open>None\<close> item.
\<close>

lemma worker_dequeue_cases:
  assumes tq: "set (queued (to_check c)) \<subseteq> to_check_set c"
    and uq: "length (to_check c) \<le> unfinished c"
    and cq: "set (queued (to_check c)) \<inter> contacting a = {}"
    and step: "worker_dequeue i t (a, c) = Some s'"
  obtains P p rest where "i < length (workers c)" "workers c ! i = Waiting P"
      "to_check c = Some p # rest"
      "s' = (a, c\<lparr>to_check := rest, to_check_set := to_check_set c - {p},
                   unfinished := unfinished c - 1\<rparr>)"
  | P p rest where "i < length (workers c)" "workers c ! i = Waiting P"
      "to_check c = Some p # rest" "p \<notin> attempted c" "p \<notin> contacting a"
      "s' = (a\<lparr>contacting := insert p (contacting a)\<rparr>,
             c\<lparr>to_check := rest, workers := (workers c)[i := Posting P p]\<rparr>)"
  | P rest where "i < length (workers c)" "workers c ! i = Waiting P"
      "to_check c = None # rest"
      "s' = (a, c\<lparr>to_check := rest, workers := (workers c)[i := Exited]\<rparr>)"
proof -
  obtain P item rest where i: "i < length (workers c)" and w: "workers c ! i = Waiting P"
    and q: "to_check c = item # rest" and s': "s' = take_item i t P item (a, c\<lparr>to_check := rest\<rparr>)"
    using step by (auto simp: worker_dequeue_def split: if_splits worker.splits list.splits)
  show ?thesis
  proof (cases item)
    case None
    then show ?thesis using that(3) [OF i w] q s' by simp
  next
    case (Some p)
    from tq uq cq q Some have pT: "p \<in> to_check_set c" and pos: "0 < unfinished c"
      and pC: "p \<notin> contacting a"
      by auto
    show ?thesis
    proof (cases "recently_errored (last_errored a) t p \<or> p \<in> attempted c")
      case True
      then show ?thesis
        using that(1) [OF i w q [unfolded Some]] s' Some pT pos by (auto simp: skip_item_ok)
    next
      case False
      then show ?thesis
        using that(2) [OF i w q [unfolded Some]] s' Some pC by simp
    qed
  qed
qed

lemma wbusy_cases:
  "wbusy w = [p] \<Longrightarrow> (\<exists>P. w = Posting P p) \<or> (\<exists>P. w = Getting P p)"
  by (cases w) auto

lemma idle_running: "running w \<Longrightarrow> wbusy w = [] \<Longrightarrow> \<exists>P. w = Waiting P"
  by (cases w) auto

lemma busy_member:
  "p \<in> set (busy ws) \<Longrightarrow> \<exists>i < length ws. wbusy (ws ! i) = [p]"
proof -
  assume "p \<in> set (busy ws)"
  then obtain w where w: "w \<in> set ws" "p \<in> set (wbusy w)"
    by (auto simp: busy_def)
  then obtain i where "i < length ws" "ws ! i = w" by (meson in_set_conv_nth)
  moreover have "wbusy w = [p]" using w(2) by (cases w) auto
  ultimately show ?thesis by blast
qed

lemma busy_Nil_nth: "busy ws = [] \<Longrightarrow> i < length ws \<Longrightarrow> wbusy (ws ! i) = []"
  by (simp add: busy_def)

lemma busy_replicate_waiting [simp]: "busy (replicate n (Waiting P)) = []"
  by (induction n) (simp_all add: busy_def)

lemma cycle_start_inv:
  "distinct d \<Longrightarrow> contacting a = {} \<Longrightarrow> cycle_inv (a, cycle_start u d)"
  by (simp add: cycle_inv_def cycle_start_def image_image image_iff list_all_iff)

text \<open>
  C8. The loop over a reported peer list queues, once each and in order, exactly the reported peers that are neither in peers_to_check_set, nor being contacted, nor attempted (a reported null going on the queue as the object None), counts one unfinished task for each, and raises the new-peer flag exactly when it queued one.
\<close>

theorem enqueue_new_spec:
  "enqueue_new ct L nw c = (nw', c') \<Longrightarrow>
   \<exists>N. to_check c' = to_check c @ map queue_item N \<and>
       set N = set L - (to_check_set c \<union> ct \<union> attempted c) \<and> distinct N \<and>
       to_check_set c' = to_check_set c \<union> set N \<and>
       unfinished c' = unfinished c + length N \<and> (nw' \<longleftrightarrow> nw \<or> N \<noteq> [])"
proof -
  assume e: "enqueue_new ct L nw c = (nw', c')"
  let ?N = "new_peers (to_check_set c \<union> ct \<union> attempted c) L"
  from e have "nw' = (nw \<or> ?N \<noteq> [])" and "c' = c\<lparr>to_check := to_check c @ map queue_item ?N,
      unfinished := unfinished c + length ?N, to_check_set := to_check_set c \<union> set ?N\<rparr>"
    by (simp_all add: enqueue_new_eq Let_def)
  then show ?thesis by (intro exI [of _ ?N]) simp
qed

text \<open>
  C6. Dead-peer suppression in the gossip engine: a dequeued peer, not yet attempted, whose last failure was at T is skipped (removed from peers_to_check_set and marked done, with no contact) when the dequeue happens less than LAST_ERRORED_CACHE_TIME = 30 seconds after T, and contacted when it happens later.
\<close>

theorem dequeue_dead_peer_window:
  "cycle_inv (a, c) \<Longrightarrow> i < length (workers c) \<Longrightarrow> workers c ! i = Waiting P \<Longrightarrow>
   to_check c = Some p # rest \<Longrightarrow> p \<notin> attempted c \<Longrightarrow> last_errored a p = Some T \<Longrightarrow>
   gstep (a, c) (Deq i t) =
     Some (if t - T < 30
           then (a, c\<lparr>to_check := rest, to_check_set := to_check_set c - {p},
                      unfinished := unfinished c - 1\<rparr>)
           else (a\<lparr>contacting := insert p (contacting a)\<rparr>,
                 c\<lparr>to_check := rest, workers := (workers c)[i := Posting P p]\<rparr>))"
  by (auto simp: worker_dequeue_def cycle_inv_def skip_item_ok recently_errored_def
      LAST_ERRORED_CACHE_TIME_def)

text \<open>
  C7. A failed notify POST does not abort the cycle: the peer is recorded in last_errored with the failure time, added to attempted, removed from contacting, its queue task is marked done, the worker waits for the next item, and the iteration reports no new peer.
\<close>

theorem failed_post_recorded:
  assumes "cycle_inv (a, c)" "i < length (workers c)" "workers c ! i = Posting P p"
    and "gstep (a, c) (PostDone i t PostFailed) = Some (a', c')"
  shows "last_errored a' p = Some t \<and> p \<in> attempted c' \<and> p \<notin> contacting a' \<and>
         workers c' ! i = Waiting P \<and> unfinished c' = unfinished c - 1 \<and>
         results c' = results c @ [False]"
proof -
  let ?a = "a\<lparr>last_errored := mark_errored (last_errored a) p t\<rparr>"
  have inv: "cycle_inv (?a, c)" using assms(1) by (simp add: cycle_inv_def)
  have "p \<in> set (busy (workers c))" using busy_nth [OF assms(2), of p] assms(3) by simp
  then have "p \<notin> contacting a - {p}" by simp
  moreover have "(a', c') = finish_contact i P p [] (?a, c)"
    using assms(2-4) by (simp add: post_done_def)
  ultimately show ?thesis
    using finish_contact_ok [OF inv assms(2), of p P "[]"] assms(2,3)
    by (simp add: Let_def mark_errored_def)
qed


lemma enqueue_new_cyc_peers [simp]: "cyc_peers (snd (enqueue_new ct L nw c)) = cyc_peers c"
  by (induction L arbitrary: nw c) auto

lemma finish_contact_frame:
  assumes "finish_contact i P p L (a, c) = (a', c')"
  shows "app_frame a a' \<and> cyc_peers c' = cyc_peers c"
proof -
  obtain nw c1 where e: "enqueue_new (contacting a) L False c = (nw, c1)" by (metis surj_pair)
  have "cyc_peers c1 = cyc_peers c" using enqueue_new_cyc_peers [of "contacting a" L False c] e by simp
  then show ?thesis using assms
    by (auto simp: finish_contact_def Let_def e app_frame_def split: sum.splits)
qed

lemma gstep_frame:
  assumes "gstep (a, c) e = Some (a', c')"
  shows "app_frame a a' \<and> cyc_peers c' = cyc_peers c"
proof -
  have le: "app_frame a (a\<lparr>last_errored := x\<rparr>)" "app_frame a (a\<lparr>connected_to_peer_network := y\<rparr>)"
    "app_frame a (a\<lparr>connected_to_peer_network := y, last_errored := x\<rparr>)"
    "app_frame a (a\<lparr>contacting := z\<rparr>)" "app_frame a a" for x y z
    by (simp_all add: app_frame_def)
  have tr: "app_frame a b \<Longrightarrow> app_frame b b' \<Longrightarrow> app_frame a b'" for b b'
    by (simp add: app_frame_def)
  have fc: "finish_contact i P p L (b, c) = (a', c') \<Longrightarrow> app_frame a b \<Longrightarrow>
      app_frame a a' \<and> cyc_peers c' = cyc_peers c" for i P p L b
    using finish_contact_frame tr by blast
  show ?thesis
  proof (cases e)
    case (Deq i t)
    then show ?thesis using assms le
      by (auto simp: worker_dequeue_def skip_item_def split: if_splits worker.splits list.splits
          option.splits sum.splits elim!: take_item.elims)
  next
    case (PostDone i t r)
    then show ?thesis using assms le fc
      by (auto simp: post_done_def split: if_splits worker.splits post_outcome.splits)
  next
    case (GetDone i t r)
    then show ?thesis using assms le fc
      by (auto simp: get_done_def split: if_splits worker.splits get_outcome.splits)
  qed
qed

lemma grun_frame:
  "grun (a, c) es = Some (a', c') \<Longrightarrow> app_frame a a' \<and> cyc_peers c' = cyc_peers c"
proof (induction es arbitrary: a c)
  case Nil
  then show ?case by (simp add: app_frame_def)
next
  case (Cons e es)
  then obtain a1 c1 where st: "gstep (a, c) e = Some (a1, c1)" and run: "grun (a1, c1) es = Some (a', c')"
    by (auto split: option.splits)
  from gstep_frame [OF st] Cons.IH [OF run] show ?case by (simp add: app_frame_def)
qed


section \<open>Witnesses on the example cycle\<close>

lemmas ex_simps = ex_app_def ex_cycle_def ex_events_def app_init_def cycle_start_def WORKERS_def
  worker_dequeue_def post_done_def get_done_def finish_contact_def skip_item_def
  recently_errored_def mark_errored_def LAST_ERRORED_CACHE_TIME_def queue_item_def

lemma ex_start_inv: "cycle_inv (ex_app, ex_cycle)"
  by (simp add: cycle_inv_def ex_app_def ex_cycle_def app_init_def cycle_start_def WORKERS_def
      busy_def list_all_iff)

lemma ex_run:
  "grun (ex_app, ex_cycle) ex_events =
     Some (ex_app\<lparr>connected_to_peer_network := True, last_errored := [KStr ''c/'' \<mapsto> 5]\<rparr>,
           ex_cycle\<lparr>to_check := [], unfinished := 0, to_check_set := {},
             attempted := {KStr ''a/'', KStr ''b/'', KStr ''c/''}, results := [True, False],
             workers := [Waiting {KStr ''a/'', KStr ''b/'', KStr ''c/''}, Waiting {KStr ''a/'', KStr ''b/''}] @
                        replicate 8 (Waiting {KStr ''a/'', KStr ''b/''})\<rparr>)"
  by (simp add: ex_simps insert_commute numeral_eq_Suc insert_Diff_if)

lemma ex_benign: "list_all benign ex_events"
  by (simp add: ex_events_def)

theorem grun_cycle_inv_witness:
  "\<exists>s'. grun (ex_app, ex_cycle) ex_events = Some s' \<and> cycle_inv s'"
  using grun_cycle_inv [OF ex_start_inv ex_benign] ex_run by blast


theorem dequeue_dead_peer_window_witness:
  "gstep (ex_app\<lparr>last_errored := [KStr ''b/'' \<mapsto> 0]\<rparr>, cycle_start ''a/'' [''b/'']) (Deq 0 29) =
     Some (ex_app\<lparr>last_errored := [KStr ''b/'' \<mapsto> 0]\<rparr>,
           (cycle_start ''a/'' [''b/''])\<lparr>to_check := [], to_check_set := {}, unfinished := 0\<rparr>) \<and>
   gstep (ex_app\<lparr>last_errored := [KStr ''b/'' \<mapsto> 0]\<rparr>, cycle_start ''a/'' [''b/'']) (Deq 0 31) =
     Some (ex_app\<lparr>last_errored := [KStr ''b/'' \<mapsto> 0], contacting := {KStr ''b/''}\<rparr>,
           (cycle_start ''a/'' [''b/''])\<lparr>to_check := [],
              workers := Posting {KStr ''b/''} (KStr ''b/'') # replicate 9 (Waiting {KStr ''b/''})\<rparr>)"
proof -
  let ?a = "ex_app\<lparr>last_errored := [KStr ''b/'' \<mapsto> 0]\<rparr>" and ?c = "cycle_start ''a/'' [''b/'']"
  have inv: "cycle_inv (?a, ?c)"
    using cycle_start_inv [of "[''b/'']" ?a "''a/''"] by (simp add: ex_app_def app_init_def)
  have i: "0 < length (workers ?c)" and w: "workers ?c ! 0 = Waiting {KStr ''b/''}"
    and q: "to_check ?c = Some (KStr ''b/'') # []" and na: "KStr ''b/'' \<notin> attempted ?c"
    by (simp_all add: cycle_start_def WORKERS_def)
  have T: "last_errored ?a (KStr ''b/'') = Some 0" by simp
  show ?thesis
    using dequeue_dead_peer_window [OF inv i w q na T, of 29]
          dequeue_dead_peer_window [OF inv i w q na T, of 31]
    by (simp add: cycle_start_def WORKERS_def numeral_eq_Suc ex_app_def app_init_def
             del: gstep.simps)
qed

theorem failed_post_recorded_witness:
  "\<exists>s s'. grun (ex_app, ex_cycle) [Deq 0 1, Deq 0 1] = Some s \<and>
          gstep s (PostDone 0 2 PostFailed) = Some s' \<and>
          last_errored (fst s') (KStr ''b/'') = Some 2 \<and> KStr ''b/'' \<in> attempted (snd s') \<and>
          KStr ''b/'' \<notin> contacting (fst s') \<and> unfinished (snd s') = 0"
proof -
  define a1 where "a1 = ex_app\<lparr>contacting := {KStr ''b/''}\<rparr>"
  define c1 where "c1 = ex_cycle\<lparr>to_check := [], unfinished := 1, to_check_set := {KStr ''b/''},
      workers := Posting {KStr ''a/'', KStr ''b/''} (KStr ''b/'') # replicate 9 (Waiting {KStr ''a/'', KStr ''b/''})\<rparr>"
  have run: "grun (ex_app, ex_cycle) [Deq 0 1, Deq 0 1] = Some (a1, c1)"
    by (simp add: a1_def c1_def ex_simps numeral_eq_Suc insert_Diff_if)
  have inv: "cycle_inv (a1, c1)"
    by (simp add: a1_def c1_def cycle_inv_def ex_app_def ex_cycle_def app_init_def
        cycle_start_def busy_def list_all_iff)
  have i: "0 < length (workers c1)" and w: "workers c1 ! 0 = Posting {KStr ''a/'', KStr ''b/''} (KStr ''b/'')"
    by (simp_all add: c1_def)
  obtain s' where st: "gstep (a1, c1) (PostDone 0 2 PostFailed) = Some s'"
    using i w by (auto simp: post_done_def)
  have u: "unfinished c1 - 1 = 0" by (simp add: c1_def)
  have "last_errored (fst s') (KStr ''b/'') = Some 2 \<and> KStr ''b/'' \<in> attempted (snd s') \<and>
        KStr ''b/'' \<notin> contacting (fst s') \<and> unfinished (snd s') = 0"
    using failed_post_recorded [OF inv i w, of 2 "fst s'" "snd s'"] st u by simp
  then show ?thesis using run st by blast
qed

theorem enqueue_new_spec_witness:
  "\<exists>N. to_check (snd (enqueue_new {} [KStr ''c/'', KNone, KStr ''a/'', KStr ''c/''] False ex_cycle)) =
         to_check ex_cycle @ map queue_item N \<and> set N = {KStr ''c/'', KNone} \<and> distinct N"
proof -
  obtain nw' c' where e: "enqueue_new {} [KStr ''c/'', KNone, KStr ''a/'', KStr ''c/''] False ex_cycle = (nw', c')"
    by (metis surj_pair)
  from enqueue_new_spec [OF e] obtain N where
    N: "to_check c' = to_check ex_cycle @ map queue_item N"
    "set N = set [KStr ''c/'', KNone, KStr ''a/'', KStr ''c/''] - (to_check_set ex_cycle \<union> {} \<union> attempted ex_cycle)"
    and d: "distinct N" by blast
  have "set N = {KStr ''c/'', KNone}"
    using N(2) by (auto simp: ex_cycle_def cycle_start_def)
  moreover have "to_check (snd (enqueue_new {} [KStr ''c/'', KNone, KStr ''a/'', KStr ''c/''] False ex_cycle)) =
      to_check ex_cycle @ map queue_item N"
    using N(1) by (simp only: e snd_conv)
  ultimately show ?thesis using d by blast
qed

end
