(* ===== verification/Refresh.thy ===== *)
theory Refresh
  imports Gossip
begin

text \<open>
  The refresh policy of \<open>Application.get_peers\<close>
  (\<open>src/chord_federation/app.py\<close> lines 306--346): the staleness and
  invalidation test guarded by \<open>fetching_peers\<close>, the start of a gossip
  cycle (modelled in \<open>Gossip\<close>), and what happens once
  \<open>peers_to_check.join()\<close> returns: the invalidation flag takes the workers'
  results, every peer of the snapshot \<open>peers\<close> is inserted into the table,
  \<open>fetching_peers\<close> is cleared, one sentinel per worker is queued and the
  workers exit.  \<open>get_peers\<close> returns the snapshot read before the cycle.
\<close>

section \<open>Gating a refresh\<close>

text \<open>\<open>timedelta(hours=1)\<close> in seconds (line 310).\<close>

definition STALENESS :: time where
  "STALENESS = 3600"

text \<open>
  Line 310: \<open>(datetime.utcnow() - timedelta(hours=1) > self.last_peers_update
  or self.peer_cache_invalidated) and not self.fetching_peers\<close>.
\<close>

definition refresh_needed :: "time \<Rightarrow> app \<Rightarrow> bool" where
  "refresh_needed now a \<longleftrightarrow>
     (now - STALENESS > last_peers_update a \<or> peer_cache_invalidated a) \<and> \<not> fetching_peers a"

text \<open>
  Lines 307--328 up to the workers: the snapshot of the table, and when a
  refresh is needed \<open>fetching_peers\<close> and \<open>last_peers_update\<close> are set before
  the cycle starts.  The loop of line 318 queues the snapshot in the order
  \<open>qs\<close> in which the set \<open>peers\<close> iterates, which Python does not specify.
  The result is the snapshot, the new state and the cycle started, if any.
\<close>

definition get_peers_start :: "url \<Rightarrow> time \<Rightarrow> url list \<Rightarrow> app \<Rightarrow> url set \<times> app \<times> cycle option" where
  "get_peers_start chord_url now qs a =
     (let peers = select_peers (db a) in
      if refresh_needed now a
      then (peers, a\<lparr>fetching_peers := True, last_peers_update := now\<rparr>,
            Some (cycle_start chord_url qs))
      else (peers, a, None))"

section \<open>After the join\<close>

text \<open>
  \<open>await peers_to_check.join()\<close> returns once the queue counts no unfinished
  task (\<open>None\<close> while it still waits); lines 333--342 then run without
  suspending: the flag becomes \<open>peer_cache_invalidated or (True in results)\<close>,
  \<open>INSERT OR IGNORE\<close> of every peer of the snapshot, \<open>fetching_peers =
  False\<close>, and \<open>WORKERS\<close> sentinels \<open>None\<close> are put on the queue (each put
  counts an unfinished task).
\<close>

definition join_finish :: "gstate \<Rightarrow> gstate option" where
  "join_finish s =
     (let (a, c) = s in
      if unfinished c = 0 then
        Some (a\<lparr>peer_cache_invalidated := peer_cache_invalidated a \<or> True \<in> set (results c),
                db := fold insert_or_ignore (cyc_peers c) (db a), fetching_peers := False\<rparr>,
              c\<lparr>to_check := to_check c @ replicate WORKERS None,
                unfinished := unfinished c + WORKERS\<rparr>)
      else None)"

text \<open>\<open>await workers\<close> (line 344) returns when every worker has exited.\<close>

definition all_exited :: "cycle \<Rightarrow> bool" where
  "all_exited c \<longleftrightarrow> list_all (\<lambda>w. w = Exited) (workers c)"

text \<open>
  A whole refresh as far as the table and the flags see it: start, any
  interleaving of worker events, and the code after the join; \<open>qs\<close> ranges
  over the orders in which the snapshot can iterate.
\<close>

definition refresh_run :: "url \<Rightarrow> time \<Rightarrow> url list \<Rightarrow> gevent list \<Rightarrow> app \<Rightarrow> gstate option" where
  "refresh_run chord_url now qs es a =
     (case get_peers_start chord_url now qs a of
        (P, a1, Some c1) \<Rightarrow>
          if set_order qs P then Option.bind (grun (a1, c1) es) join_finish else None
      | (_, a1, None) \<Rightarrow> None)"

text \<open>
  The whole call \<open>get_peers\<close> (lines 306--346) as its caller sees it: the
  snapshot it returns and the application state after it.  Without a refresh
  it returns at once (no worker event can occur); with one, the cycle runs to
  the join and \<open>join_finish\<close>.  The sentinel events after the join change
  only the workers (\<open>shutdown_completes\<close>), so the state after
  \<open>await workers\<close> is the state after \<open>join_finish\<close>.
\<close>

definition get_peers :: "url \<Rightarrow> time \<Rightarrow> url list \<Rightarrow> gevent list \<Rightarrow> app \<Rightarrow> (url set \<times> app) option" where
  "get_peers chord_url now qs es a =
     (case get_peers_start chord_url now qs a of
        (P, a1, None) \<Rightarrow> (if es = [] then Some (P, a1) else None)
      | (P, a1, Some c1) \<Rightarrow>
          if set_order qs P
          then map_option (\<lambda>s. (P, fst s)) (Option.bind (grun (a1, c1) es) join_finish)
          else None)"

text \<open>A refresh of the example node in which \<open>b/\<close> reports only \<open>a/\<close>.\<close>

definition ex_quiet :: "gevent list" where
  "ex_quiet = [Deq 0 1, Deq 0 1, PostDone 0 2 PostOk, GetDone 0 3 (GetPeers [KStr ''a/''])]"

section \<open>Lemmas\<close>

lemma fold_insert_or_ignore_present:
  "set ps \<subseteq> set d \<Longrightarrow> fold insert_or_ignore ps d = d"
  by (induction ps) (auto simp: insert_or_ignore_present)

lemma get_peers_start_Some:
  "get_peers_start u now qs a = (P, a1, Some c1) \<Longrightarrow>
   refresh_needed now a \<and> P = set (db a) \<and>
   a1 = a\<lparr>fetching_peers := True, last_peers_update := now\<rparr> \<and> c1 = cycle_start u qs"
  by (auto simp: get_peers_start_def select_peers_def Let_def split: if_splits)

lemma refresh_run_Some:
  assumes "refresh_run u now qs es a = Some (a', c')"
  obtains a2 c2 where "refresh_needed now a" "set_order qs (set (db a))"
    "grun (a\<lparr>fetching_peers := True, last_peers_update := now\<rparr>, cycle_start u qs) es = Some (a2, c2)"
    "join_finish (a2, c2) = Some (a', c')"
  using assms
  by (auto simp: refresh_run_def get_peers_start_def select_peers_def Let_def bind_eq_Some_conv
           split: if_splits option.splits)

lemma snapshot_reinsert:
  "set_order qs (set d) \<Longrightarrow> fold insert_or_ignore (cyc_peers (cycle_start u qs)) d = d"
  by (simp add: set_order_def cycle_start_def fold_insert_or_ignore_present)

lemma get_peers_Some:
  assumes "get_peers u now qs es a = Some (P, a')"
  shows "P = set (db a) \<and> db a' = db a \<and>
         last_peers_update a' = (if refresh_needed now a then now else last_peers_update a) \<and>
         (peer_cache_invalidated a \<longrightarrow> peer_cache_invalidated a') \<and>
         (refresh_needed now a \<longrightarrow> \<not> fetching_peers a')"
proof (cases "refresh_needed now a")
  case False
  then show ?thesis using assms
    by (auto simp: get_peers_def get_peers_start_def select_peers_def refresh_needed_def split: if_splits)
next
  case True
  then obtain s2 a2 c2 where run: "grun (a\<lparr>fetching_peers := True, last_peers_update := now\<rparr>,
        cycle_start u qs) es = Some (a2, c2)" and fin: "join_finish (a2, c2) = Some s2"
    and s: "a' = fst s2" and P: "P = set (db a)" and o: "set_order qs (set (db a))"
    using assms by (auto simp: get_peers_def get_peers_start_def select_peers_def bind_eq_Some_conv
                         split: if_splits)
  from grun_frame [OF run] have "db a2 = db a" "cyc_peers c2 = cyc_peers (cycle_start u qs)"
    "last_peers_update a2 = now" "peer_cache_invalidated a2 = peer_cache_invalidated a"
    by (simp_all add: app_frame_def cycle_start_def)
  then show ?thesis using fin s P True snapshot_reinsert [OF o]
    by (auto simp: join_finish_def split: if_splits)
qed

text \<open>
  C15. A refresh never adds a discovered peer to the registry: whatever the
  workers learn, the table after the refresh is the table before it.  Each
  worker rebinds its own local \<open>peers\<close> (line 289), so the set inserted at
  line 336 is the snapshot read at line 308.
\<close>

theorem refresh_keeps_registry:
  "refresh_run u now qs es a = Some (a', c') \<Longrightarrow> db a' = db a"
proof -
  assume r: "refresh_run u now qs es a = Some (a', c')"
  then obtain a2 c2 where o: "set_order qs (set (db a))" and run: "grun (a\<lparr>fetching_peers := True,
        last_peers_update := now\<rparr>, cycle_start u qs) es = Some (a2, c2)"
    and fin: "join_finish (a2, c2) = Some (a', c')"
    by (rule refresh_run_Some)
  from grun_frame [OF run] have "db a2 = db a" "cyc_peers c2 = cyc_peers (cycle_start u qs)"
    by (simp_all add: app_frame_def cycle_start_def)
  then show ?thesis using fin snapshot_reinsert [OF o]
    by (auto simp: join_finish_def split: if_splits)
qed

text \<open>
  Staleness gating: within the hour after the last refresh started, and
  with the invalidation flag clear, \<open>get_peers\<close> starts no cycle and changes
  nothing.
\<close>

lemma refresh_gated:
  "\<not> peer_cache_invalidated a \<Longrightarrow> now - 3600 \<le> last_peers_update a \<Longrightarrow>
   get_peers_start u now qs a = (set (db a), a, None)"
  by (simp add: get_peers_start_def refresh_needed_def STALENESS_def select_peers_def)

text \<open>
  While \<open>fetching_peers\<close> is set, \<open>get_peers\<close> starts no cycle and returns
  the table as it is.
\<close>

lemma refresh_exclusive:
  "fetching_peers a \<Longrightarrow> get_peers_start u now qs a = (set (db a), a, None)"
  by (simp add: get_peers_start_def refresh_needed_def select_peers_def)

text \<open>
  C16. The invalidation flag is never cleared by \<open>get_peers\<close>: after a
  refresh it is the old flag or'ed with the workers' new-peer results, so once
  set, every later call that finds no refresh running starts a new cycle.
\<close>

theorem refresh_invalidation_sticky:
  "refresh_run u now qs es a = Some (a', c') \<Longrightarrow>
   peer_cache_invalidated a' = (peer_cache_invalidated a \<or> True \<in> set (results c')) \<and>
   \<not> fetching_peers a' \<and> last_peers_update a' = now \<and>
   (peer_cache_invalidated a' \<longrightarrow> refresh_needed now' a')"
proof -
  assume r: "refresh_run u now qs es a = Some (a', c')"
  then obtain a2 c2 where run: "grun (a\<lparr>fetching_peers := True, last_peers_update := now\<rparr>,
        cycle_start u qs) es = Some (a2, c2)" and fin: "join_finish (a2, c2) = Some (a', c')"
    by (rule refresh_run_Some)
  from grun_frame [OF run] have "peer_cache_invalidated a2 = peer_cache_invalidated a"
    "last_peers_update a2 = now"
    by (simp_all add: app_frame_def)
  then show ?thesis using fin
    by (auto simp: join_finish_def refresh_needed_def split: if_splits)
qed

text \<open>
  C39. Staleness gating across two reads (specification, section 8): when a
  \<open>get_peers\<close> call has run a refresh that left the invalidation flag clear,
  a second call within the hour after the first one started starts no cycle
  and changes nothing, whatever the order in which it would iterate.
\<close>

theorem staleness_gating:
  "get_peers u now qs es a = Some (P, a') \<Longrightarrow> refresh_needed now a \<Longrightarrow>
   \<not> peer_cache_invalidated a' \<Longrightarrow> now' - 3600 \<le> now \<Longrightarrow>
   get_peers_start u now' qs' a' = (set (db a'), a', None)"
proof -
  assume g: "get_peers u now qs es a = Some (P, a')" and r: "refresh_needed now a"
    and f: "\<not> peer_cache_invalidated a'" and t: "now' - 3600 \<le> now"
  from get_peers_Some [OF g] r have "last_peers_update a' = now" "\<not> fetching_peers a'" by simp_all
  then have "\<not> refresh_needed now' a'" using f t by (simp add: refresh_needed_def STALENESS_def)
  then show ?thesis by (simp add: get_peers_start_def select_peers_def)
qed

lemma sentinel_run:
  assumes "workers c = replicate i Exited @ ws" "\<forall>w \<in> set ws. \<exists>P. w = Waiting P"
    and "to_check c = replicate (length ws) None"
  shows "grun (a, c) (map (\<lambda>j. Deq j t) [i..<i + length ws]) =
           Some (a, c\<lparr>to_check := [], workers := replicate (i + length ws) Exited\<rparr>)"
  using assms
proof (induction ws arbitrary: i c)
  case Nil
  then show ?case by simp
next
  case (Cons w ws)
  obtain P where w: "w = Waiting P" using Cons.prems(2) by auto
  let ?c = "c\<lparr>to_check := replicate (length ws) None, workers := replicate (Suc i) Exited @ ws\<rparr>"
  have upd: "(replicate i Exited @ w # ws)[i := Exited] = replicate (Suc i) Exited @ ws"
    by (simp add: list_update_append replicate_append_same [symmetric])
  have step: "gstep (a, c) (Deq i t) = Some (a, ?c)"
    using Cons.prems w upd by (simp add: worker_dequeue_def nth_append)
  have "grun (a, ?c) (map (\<lambda>j. Deq j t) [Suc i..<Suc i + length ws]) =
          Some (a, ?c\<lparr>to_check := [], workers := replicate (Suc i + length ws) Exited\<rparr>)"
    using Cons.IH [of ?c "Suc i"] Cons.prems(2) by simp
  moreover have "[i..<i + length (w # ws)] = i # [Suc i..<Suc i + length ws]"
    by (simp add: upt_rec)
  ultimately show ?case using step by simp
qed

lemma join_state_idle:
  assumes "cycle_inv (a, c)" "unfinished c = 0"
  shows "to_check c = [] \<and> (\<forall>w \<in> set (workers c). \<exists>P. w = Waiting P)"
proof -
  from assms have q: "to_check c = []" and b: "busy (workers c) = []"
    and r: "list_all running (workers c)"
    by (auto simp: cycle_inv_def)
  have "\<forall>w \<in> set (workers c). \<exists>P. w = Waiting P"
  proof
    fix w assume "w \<in> set (workers c)"
    moreover from this b have "wbusy w = []" by (auto simp: busy_def)
    ultimately show "\<exists>P. w = Waiting P" using r idle_running by (auto simp: list_all_iff)
  qed
  with q show ?thesis by simp
qed

text \<open>
  C17. Shutdown: once the join has returned in an invariant state of a pool
  of \<open>WORKERS\<close> workers, the \<open>WORKERS\<close> sentinels queued after it are taken
  one by each worker, the queue ends empty and every worker has exited, so
  \<open>await workers\<close> returns.
\<close>

theorem shutdown_completes:
  assumes inv: "cycle_inv (a, c)" and len: "length (workers c) = WORKERS"
    and fin: "join_finish (a, c) = Some (a', c')"
  shows "grun (a', c') (map (\<lambda>j. Deq j t) [0..<WORKERS]) =
           Some (a', c'\<lparr>to_check := [], workers := replicate WORKERS Exited\<rparr>) \<and>
         all_exited (c'\<lparr>to_check := [], workers := replicate WORKERS Exited\<rparr>)"
proof -
  have u: "unfinished c = 0" using fin by (simp add: join_finish_def split: if_splits)
  from join_state_idle [OF inv u] have q: "to_check c = []"
    and w: "\<forall>w \<in> set (workers c). \<exists>P. w = Waiting P" by simp_all
  have c': "workers c' = workers c" "to_check c' = replicate WORKERS None"
    using fin q by (auto simp: join_finish_def split: if_splits)
  have "grun (a', c') (map (\<lambda>j. Deq j t) [0..<0 + length (workers c)]) =
          Some (a', c'\<lparr>to_check := [], workers := replicate (0 + length (workers c)) Exited\<rparr>)"
    using c' w len by (intro sentinel_run) simp_all
  then show ?thesis using len by (simp add: all_exited_def list_all_iff)
qed

section \<open>Witnesses\<close>

lemma ex_refresh:
  "\<exists>s. refresh_run ''a/'' 4000 [''a/'', ''b/''] ex_events ex_app = Some s \<and> KStr ''c/'' \<in> attempted (snd s) \<and>
       True \<in> set (results (snd s))"
  by (simp add: refresh_run_def get_peers_start_def refresh_needed_def STALENESS_def set_order_def
      join_finish_def select_peers_def ex_simps insert_commute numeral_eq_Suc insert_Diff_if)

theorem refresh_keeps_registry_witness:
  "\<exists>s. refresh_run ''a/'' 4000 [''a/'', ''b/''] ex_events ex_app = Some s \<and>
       KStr ''c/'' \<in> attempted (snd s) \<and> ''c/'' \<notin> set (db (fst s))"
proof -
  obtain s where r: "refresh_run ''a/'' 4000 [''a/'', ''b/''] ex_events ex_app = Some s"
    and c: "KStr ''c/'' \<in> attempted (snd s)" using ex_refresh by blast
  have "db (fst s) = db ex_app"
    using refresh_keeps_registry [of "''a/''" 4000 "[''a/'', ''b/'']" ex_events ex_app "fst s" "snd s"] r
    by simp
  then show ?thesis using r c by (simp add: ex_app_def app_init_def)
qed

theorem refresh_invalidation_sticky_witness:
  "\<exists>s. refresh_run ''a/'' 4000 [''a/'', ''b/''] ex_events ex_app = Some s \<and>
       peer_cache_invalidated (fst s) \<and> refresh_needed 4001 (fst s)"
proof -
  obtain s where r: "refresh_run ''a/'' 4000 [''a/'', ''b/''] ex_events ex_app = Some s"
    and t: "True \<in> set (results (snd s))" using ex_refresh by blast
  show ?thesis
    using refresh_invalidation_sticky [of "''a/''" 4000 "[''a/'', ''b/'']" ex_events ex_app "fst s" "snd s" 4001] r t
    by auto
qed

theorem shutdown_completes_witness:
  "\<exists>s s'. grun (ex_app, ex_cycle) ex_events = Some s \<and> join_finish s = Some s' \<and>
     grun s' (map (\<lambda>j. Deq j 6) [0..<WORKERS]) =
       Some (fst s', snd s'\<lparr>to_check := [], workers := replicate WORKERS Exited\<rparr>)"
proof -
  define sF where "sF = (ex_app\<lparr>connected_to_peer_network := True, last_errored := [KStr ''c/'' \<mapsto> 5]\<rparr>,
           ex_cycle\<lparr>to_check := [], unfinished := 0, to_check_set := {},
             attempted := {KStr ''a/'', KStr ''b/'', KStr ''c/''}, results := [True, False],
             workers := [Waiting {KStr ''a/'', KStr ''b/'', KStr ''c/''}, Waiting {KStr ''a/'', KStr ''b/''}] @
                        replicate 8 (Waiting {KStr ''a/'', KStr ''b/''})\<rparr>)"
  have run: "grun (ex_app, ex_cycle) ex_events = Some sF" using ex_run by (simp add: sF_def)
  have inv: "cycle_inv (fst sF, snd sF)"
    by (simp add: sF_def cycle_inv_def ex_app_def app_init_def busy_def list_all_iff)
  have len: "length (workers (snd sF)) = WORKERS" by (simp add: sF_def WORKERS_def)
  obtain a' c' where fin: "join_finish (fst sF, snd sF) = Some (a', c')"
    by (simp add: join_finish_def sF_def)
  have "grun (a', c') (map (\<lambda>j. Deq j 6) [0..<WORKERS]) =
          Some (a', c'\<lparr>to_check := [], workers := replicate WORKERS Exited\<rparr>)"
    using shutdown_completes [OF inv len fin, of 6] by simp
  then show ?thesis using fin run by (intro exI [of _ sF] exI [of _ "(a', c')"]) simp
qed


theorem staleness_gating_witness:
  "\<exists>P a'. get_peers ''a/'' 4000 [''a/'', ''b/''] ex_quiet ex_app = Some (P, a') \<and>
     refresh_needed 4000 ex_app \<and> \<not> peer_cache_invalidated a' \<and>
     get_peers_start ''a/'' 5000 [''b/'', ''a/''] a' = (set (db a'), a', None)"
proof -
  have "\<exists>P a'. get_peers ''a/'' 4000 [''a/'', ''b/''] ex_quiet ex_app = Some (P, a') \<and>
          \<not> peer_cache_invalidated a'"
    by (simp add: get_peers_def get_peers_start_def refresh_needed_def STALENESS_def set_order_def
        join_finish_def select_peers_def ex_quiet_def ex_simps insert_commute numeral_eq_Suc insert_Diff_if)
  then obtain P a' where g: "get_peers ''a/'' 4000 [''a/'', ''b/''] ex_quiet ex_app = Some (P, a')"
    and f: "\<not> peer_cache_invalidated a'" by blast
  have r: "refresh_needed 4000 ex_app"
    by (simp add: refresh_needed_def STALENESS_def ex_app_def app_init_def)
  show ?thesis using staleness_gating [OF g r f, of 5000 "[''b/'', ''a/'']"] g r f by auto
qed

text \<open>
  The loop of lines 335--336, one \<open>INSERT OR IGNORE\<close> per peer, is the
  reference update: the table followed by the peers not yet in it, each once,
  in the order of their first occurrence.
\<close>

lemma insert_loop_equiv:
  "fold insert_or_ignore ps d = d @ new_peers (set d) ps"
proof (induction ps arbitrary: d)
  case Nil
  then show ?case by simp
next
  case (Cons p ps)
  then show ?case by (simp add: insert_or_ignore_def)
qed

end
