(* ===== verification/Search.thy ===== *)
theory Search
  imports Registry
begin

text \<open>
  The federated search of \<open>SearchHandler\<close> (\<open>src/chord_federation/app.py\<close>
  lines 167--223): the peers returned by \<open>get_peers\<close> are put on a queue,
  \<open>WORKERS\<close> coroutines \<open>search_worker\<close> each take a peer, POST the query to
  it and append the parsed answer (or \<open>None\<close> on any exception) to the shared
  list \<open>responses\<close>; after \<open>join\<close> the answers that are not \<open>None\<close> are
  flattened into one result list.

  As in the gossip model, the workers interleave at their awaits: \<open>SDeq i\<close>
  (worker \<open>i\<close> takes the head of the queue) and \<open>SResp i\<close> (its POST
  returns).  Each peer is queued once, so what the network answers is a
  function \<open>net\<close> from peer to outcome, which covers every behaviour of the
  network.  Python's \<open>None\<close> (a failed request) and a JSON \<open>null\<close> body are the
  same value in \<open>responses\<close>; both are \<open>JNull\<close> here.
\<close>

section \<open>State\<close>

datatype sworker = SWaiting | SFetching url | SExited | SCrashed py_error

record search =
  sq :: "url option list"
  s_unfinished :: nat
  s_responses :: "json list"
  s_workers :: "sworker list"

datatype sevent = SDeq nat | SResp nat

text \<open>Lines 198--204: the peers are queued and the workers started.\<close>

definition search_start :: "url list \<Rightarrow> search" where
  "search_start ps =
     \<lparr>sq = map Some ps, s_unfinished = length ps, s_responses = [],
      s_workers = replicate WORKERS SWaiting\<rparr>"

section \<open>The worker's steps\<close>

text \<open>Lines 171--174: take the head of the queue; the sentinel ends the worker.\<close>

definition search_deq :: "nat \<Rightarrow> search \<Rightarrow> search option" where
  "search_deq i s =
     (if i < length (s_workers s) then
        (case (s_workers s ! i, sq s) of
           (SWaiting, None # rest) \<Rightarrow> Some (s\<lparr>sq := rest, s_workers := (s_workers s)[i := SExited]\<rparr>)
         | (SWaiting, Some p # rest) \<Rightarrow>
             Some (s\<lparr>sq := rest, s_workers := (s_workers s)[i := SFetching p]\<rparr>)
         | _ \<Rightarrow> None)
      else None)"

text \<open>
  Lines 176--189: \<open>responses.append(json.loads(r.body))\<close>, or \<open>None\<close> when the
  fetch or the parse raises, then \<open>task_done()\<close>.
\<close>

definition resp_value :: "fetch_outcome \<Rightarrow> json" where
  "resp_value r = (case r of FetchBody (Some j) \<Rightarrow> j | _ \<Rightarrow> JNull)"

definition search_resp :: "(url \<Rightarrow> fetch_outcome) \<Rightarrow> nat \<Rightarrow> search \<Rightarrow> search option" where
  "search_resp net i s =
     (if i < length (s_workers s) then
        (case s_workers s ! i of
           SFetching p \<Rightarrow>
             (let s1 = s\<lparr>s_responses := s_responses s @ [resp_value (net p)]\<rparr> in
              case task_done (s_unfinished s) of
                Inl e \<Rightarrow> Some (s1\<lparr>s_workers := (s_workers s)[i := SCrashed e]\<rparr>)
              | Inr n \<Rightarrow> Some (s1\<lparr>s_unfinished := n, s_workers := (s_workers s)[i := SWaiting]\<rparr>))
         | _ \<Rightarrow> None)
      else None)"

fun sstep :: "(url \<Rightarrow> fetch_outcome) \<Rightarrow> search \<Rightarrow> sevent \<Rightarrow> search option" where
  "sstep net s (SDeq i) = search_deq i s"
| "sstep net s (SResp i) = search_resp net i s"

fun srun :: "(url \<Rightarrow> fetch_outcome) \<Rightarrow> search \<Rightarrow> sevent list \<Rightarrow> search option" where
  "srun net s [] = Some s"
| "srun net s (e # es) = (case sstep net s e of None \<Rightarrow> None | Some s' \<Rightarrow> srun net s' es)"

section \<open>Aggregation\<close>

text \<open>\<open>r["results"]\<close> iterated by \<open>chain.from_iterable\<close>.\<close>

definition results_of :: "json \<Rightarrow> py_error + json list" where
  "results_of r = (case py_getitem r ''results'' of Inl e \<Rightarrow> Inl e | Inr v \<Rightarrow> py_iter v)"

text \<open>\<open>list(chain.from_iterable(r["results"] for r in good_responses))\<close>:
  responses in order, each one's results in order, stopping at the first
  exception.\<close>

fun collect_results :: "json list \<Rightarrow> py_error + json list" where
  "collect_results [] = Inr []"
| "collect_results (r # rs) =
     (case results_of r of
        Inl e \<Rightarrow> Inl e
      | Inr xs \<Rightarrow> (case collect_results rs of Inl e \<Rightarrow> Inl e | Inr ys \<Rightarrow> Inr (xs @ ys)))"

text \<open>
  Lines 206--212: \<open>good_responses = [r for r in responses if r is not None]\<close>
  and the body written; an exception (the \<open>except IndexError\<close> of line 214
  catches none of those raised here) fails the request.
\<close>

definition good_responses :: "json list \<Rightarrow> json list" where
  "good_responses rs = filter (\<lambda>r. r \<noteq> JNull) rs"

definition aggregate_parts :: "json list \<Rightarrow> py_error + json list \<times> nat \<times> nat" where
  "aggregate_parts rs =
     (case collect_results (good_responses rs) of
        Inl e \<Rightarrow> Inl e
      | Inr xs \<Rightarrow> Inr (xs, length (good_responses rs), length rs))"

definition aggregate :: "json list \<Rightarrow> py_error + json" where
  "aggregate rs =
     (case aggregate_parts rs of
        Inl e \<Rightarrow> Inl e
      | Inr (xs, n, m) \<Rightarrow>
          Inr (JObj [(''results'', JArr xs),
                     (''peers'', JObj [(''responded'', JNum (int n)), (''total'', JNum (int m))])]))"

text \<open>
  After \<open>join\<close> returns (\<open>None\<close> while it waits): the answer, and on success
  the \<open>WORKERS\<close> sentinels of lines 220--221; an exception skips them.
\<close>

definition search_finish :: "search \<Rightarrow> ((py_error + json) \<times> search) option" where
  "search_finish s =
     (if s_unfinished s = 0 then
        Some (case aggregate (s_responses s) of
                Inl e \<Rightarrow> (Inl e, s)
              | Inr body \<Rightarrow> (Inr body, s\<lparr>sq := sq s @ replicate WORKERS None,
                                          s_unfinished := s_unfinished s + WORKERS\<rparr>))
      else None)"

section \<open>Invariant, measure and abstraction\<close>

fun sbusy :: "sworker \<Rightarrow> url list" where
  "sbusy (SFetching p) = [p]"
| "sbusy _ = []"

fun srunning :: "sworker \<Rightarrow> bool" where
  "srunning SWaiting = True"
| "srunning (SFetching p) = True"
| "srunning _ = False"

definition sbusys :: "sworker list \<Rightarrow> url list" where
  "sbusys ws = concat (map sbusy ws)"

text \<open>
  Every peer of the search is queued, being fetched, or has exactly one
  answer in \<open>responses\<close>, namely what the network answered it; the queue
  counts one unfinished task per queued or fetched peer.
\<close>

definition search_inv :: "(url \<Rightarrow> fetch_outcome) \<Rightarrow> url list \<Rightarrow> search \<Rightarrow> bool" where
  "search_inv net ps s \<longleftrightarrow>
     None \<notin> set (sq s) \<and> list_all srunning (s_workers s) \<and>
     s_unfinished s = length (sq s) + length (sbusys (s_workers s)) \<and>
     mset (s_responses s) + mset (map (resp_value \<circ> net) (map the (sq s) @ sbusys (s_workers s))) =
       mset (map (resp_value \<circ> net) ps)"

definition smeasure :: "search \<Rightarrow> nat" where
  "smeasure s = 2 * length (sq s) + length (sbusys (s_workers s))"

text \<open>
  The abstraction of an aggregate: \<open>None\<close> for a failed request, otherwise
  the multiset of results and the two counts.  The order of the results depends
  on the order the peers answer in; this is what does not.
\<close>

definition agg_abs :: "json list \<Rightarrow> (json multiset \<times> nat \<times> nat) option" where
  "agg_abs rs = (case aggregate_parts rs of Inl e \<Rightarrow> None | Inr (xs, n, m) \<Rightarrow> Some (mset xs, n, m))"

definition results_ok :: "json \<Rightarrow> bool" where
  "results_ok r = (case results_of r of Inl e \<Rightarrow> False | Inr xs \<Rightarrow> True)"

definition results_mset :: "json \<Rightarrow> json multiset" where
  "results_mset r = (case results_of r of Inl e \<Rightarrow> {#} | Inr xs \<Rightarrow> mset xs)"


text \<open>
  The shape of the answer the handler writes on success:
  \<open>{"results": [...], "peers": {"responded": n, "total": m}}\<close> with
  \<open>0 \<le> n \<le> m\<close>.
\<close>

fun search_body_ok :: "json \<Rightarrow> bool" where
  "search_body_ok (JObj [(k1, JArr xs), (k2, JObj [(k3, JNum n), (k4, JNum m)])]) \<longleftrightarrow>
     k1 = ''results'' \<and> k2 = ''peers'' \<and> k3 = ''responded'' \<and> k4 = ''total'' \<and> 0 \<le> n \<and> n \<le> m"
| "search_body_ok _ \<longleftrightarrow> False"

section \<open>Example: the aggregation scenario of the specification\<close>

text \<open>
  Three peers: \<open>a\<close> answers \<open>{"results": [1, 2]}\<close>, \<open>b\<close> times out, \<open>c\<close>
  answers \<open>{"results": [3]}\<close>.
\<close>

definition ex_peers :: "url list" where
  "ex_peers = [''http://a/'', ''http://b/'', ''http://c/'']"

definition ex_net :: "url \<Rightarrow> fetch_outcome" where
  "ex_net p =
     (if p = ''http://a/'' then FetchBody (Some (JObj [(''results'', JArr [JNum 1, JNum 2])]))
      else if p = ''http://c/'' then FetchBody (Some (JObj [(''results'', JArr [JNum 3])]))
      else FetchFailed)"

definition ex_sevents :: "sevent list" where
  "ex_sevents = [SDeq 0, SDeq 1, SDeq 2, SResp 0, SResp 1, SResp 2]"

text \<open>The state those six events reach: every peer has answered.\<close>

definition ex_search_done :: search where
  "ex_search_done =
     \<lparr>sq = [], s_unfinished = 0,
      s_responses = [JObj [(''results'', JArr [JNum 1, JNum 2])], JNull, JObj [(''results'', JArr [JNum 3])]],
      s_workers = replicate WORKERS SWaiting\<rparr>"

text \<open>A peer whose answer has no \<open>results\<close> key.\<close>

definition ex_bad_net :: "url \<Rightarrow> fetch_outcome" where
  "ex_bad_net p = FetchBody (Some (JObj [(''peers'', JArr [])]))"

definition ex_bad_done :: search where
  "ex_bad_done =
     \<lparr>sq = [], s_unfinished = 0, s_responses = [JObj [(''peers'', JArr [])]],
      s_workers = replicate WORKERS SWaiting\<rparr>"


section \<open>Lemmas\<close>

lemma collect_results_ok:
  "list_all results_ok rs \<Longrightarrow> \<exists>xs. collect_results rs = Inr xs \<and> mset xs = sum_list (map results_mset rs)"
  by (induction rs) (auto simp: results_ok_def results_mset_def split: sum.splits)

lemma collect_results_fail:
  "\<not> list_all results_ok rs \<Longrightarrow> \<exists>e. collect_results rs = Inl e"
  by (induction rs) (auto simp: results_ok_def split: sum.splits)

lemma agg_abs_eq:
  "agg_abs rs =
     (if list_all results_ok (good_responses rs)
      then Some (sum_list (map results_mset (good_responses rs)), length (good_responses rs), length rs)
      else None)"
proof (cases "list_all results_ok (good_responses rs)")
  case True
  then show ?thesis
    using collect_results_ok [OF True] by (auto simp: agg_abs_def aggregate_parts_def)
next
  case False
  then show ?thesis
    using collect_results_fail [OF False] by (auto simp: agg_abs_def aggregate_parts_def)
qed

lemma sum_list_map_mset: "sum_list (map f xs) = sum_mset (image_mset f (mset xs))"
  by (metis mset_map sum_mset_sum_list)

lemma agg_abs_mset: "mset rs = mset rs' \<Longrightarrow> agg_abs rs = agg_abs rs'"
proof -
  assume m: "mset rs = mset rs'"
  have g: "mset (good_responses rs) = mset (good_responses rs')"
    using m by (simp add: good_responses_def mset_filter)
  have "list_all results_ok (good_responses rs) = list_all results_ok (good_responses rs')"
    using arg_cong [OF g, of set_mset] by (simp add: list_all_iff)
  moreover have "sum_list (map results_mset (good_responses rs)) =
                 sum_list (map results_mset (good_responses rs'))"
    using g by (simp add: sum_list_map_mset)
  moreover have "length (good_responses rs) = length (good_responses rs')"
    using mset_eq_length [OF g] .
  moreover have "length rs = length rs'" using mset_eq_length [OF m] .
  ultimately show ?thesis by (simp add: agg_abs_eq)
qed

lemma sbusys_update:
  "i < length ws \<Longrightarrow>
   mset (sbusys (ws[i := w])) = mset (sbusys ws) - mset (sbusy (ws ! i)) + mset (sbusy w)"
  by (simp add: sbusys_def mset_concat_map_update)

lemma sbusy_nth: "i < length ws \<Longrightarrow> ws ! i = SFetching p \<Longrightarrow> p \<in> set (sbusys ws)"
  using in_concat_map_nth [of i ws p sbusy] by (simp add: sbusys_def)

lemma search_deq_inv:
  assumes inv: "search_inv net ps s" and st: "search_deq i s = Some s'"
  shows "search_inv net ps s' \<and> smeasure s' < smeasure s"
proof -
  obtain p rest where i: "i < length (s_workers s)" and w: "s_workers s ! i = SWaiting"
    and q: "sq s = Some p # rest"
    and s': "s' = s\<lparr>sq := rest, s_workers := (s_workers s)[i := SFetching p]\<rparr>"
    using st inv by (auto simp: search_deq_def search_inv_def split: if_splits sworker.splits
        list.splits option.splits)
  have b: "mset (sbusys (s_workers s')) = mset (sbusys (s_workers s)) + {#p#}"
    using sbusys_update [OF i, of "SFetching p"] w s' by simp
  have l: "length (sbusys (s_workers s')) = Suc (length (sbusys (s_workers s)))"
    using mset_eq_length [of "sbusys (s_workers s')" "p # sbusys (s_workers s)"] b by simp
  have "mset (map (resp_value \<circ> net) (map the (sq s') @ sbusys (s_workers s'))) =
        mset (map (resp_value \<circ> net) (map the (sq s) @ sbusys (s_workers s)))"
    using b q s' by (simp add: image_mset_union [symmetric] del: image_mset_union)
  then show ?thesis
    using inv q s' l by (auto simp: search_inv_def smeasure_def list_all_update)
qed


lemma search_resp_inv:
  assumes inv: "search_inv net ps s" and st: "search_resp net i s = Some s'"
  shows "search_inv net ps s' \<and> smeasure s' < smeasure s"
proof -
  obtain p where i: "i < length (s_workers s)" and w: "s_workers s ! i = SFetching p"
    using st by (auto simp: search_resp_def split: if_splits sworker.splits)
  let ?B = "sbusys (s_workers s)" and ?ws = "(s_workers s)[i := SWaiting]"
  have pB: "p \<in> set ?B" using i w by (rule sbusy_nth)
  then have u: "0 < s_unfinished s" using inv by (cases ?B) (auto simp: search_inv_def)
  have s': "s' = s\<lparr>s_responses := s_responses s @ [resp_value (net p)],
                   s_unfinished := s_unfinished s - 1, s_workers := ?ws\<rparr>"
    using st i w u by (simp add: search_resp_def Let_def task_done_def)
  have b: "mset (sbusys ?ws) = mset ?B - {#p#}"
    using sbusys_update [OF i, of SWaiting] w by simp
  have M: "mset ?B = add_mset p (mset (sbusys ?ws))"
    using b pB by simp
  have l: "length ?B = Suc (length (sbusys ?ws))"
    using arg_cong [OF M, of size] by simp
  have e: "mset (s_responses s') + mset (map (resp_value \<circ> net) (map the (sq s') @ sbusys (s_workers s'))) =
        mset (map (resp_value \<circ> net) ps)"
    using inv by (simp add: search_inv_def s' M)
  show ?thesis
    using inv s' l e by (auto simp: search_inv_def smeasure_def list_all_update)
qed

lemma sstep_inv:
  "search_inv net ps s \<Longrightarrow> sstep net s e = Some s' \<Longrightarrow> search_inv net ps s' \<and> smeasure s' < smeasure s"
  by (cases e) (auto dest: search_deq_inv search_resp_inv)

lemma search_start_inv: "search_inv net ps (search_start ps)"
  by (simp add: search_inv_def search_start_def sbusys_def list_all_iff comp_def)

lemma search_done_iff:
  "search_inv net ps s \<Longrightarrow> s_unfinished s = 0 \<longleftrightarrow> sq s = [] \<and> sbusys (s_workers s) = []"
  by (simp add: search_inv_def)

lemma srun_inv_measure:
  "search_inv net ps s \<Longrightarrow> srun net s es = Some s' \<Longrightarrow>
   search_inv net ps s' \<and> length es + smeasure s' \<le> smeasure s"
proof (induction es arbitrary: s)
  case Nil
  then show ?case by simp
next
  case (Cons e es)
  from Cons.prems(2) obtain s1 where st: "sstep net s e = Some s1" and r: "srun net s1 es = Some s'"
    by (auto split: option.splits)
  from sstep_inv [OF Cons.prems(1) st] have "search_inv net ps s1" "smeasure s1 < smeasure s"
    by simp_all
  with Cons.IH [OF _ r] show ?case by simp
qed

lemma sbusys_Nil_nth: "sbusys ws = [] \<Longrightarrow> i < length ws \<Longrightarrow> sbusy (ws ! i) = []"
  by (simp add: sbusys_def)

lemma sbusys_member: "p \<in> set (sbusys ws) \<Longrightarrow> \<exists>i < length ws. ws ! i = SFetching p"
proof -
  assume "p \<in> set (sbusys ws)"
  then obtain w where w: "w \<in> set ws" "p \<in> set (sbusy w)" by (auto simp: sbusys_def)
  have "w = SFetching p" using w(2) by (cases w) auto
  with w(1) show ?thesis by (metis in_set_conv_nth)
qed

lemma idle_workers: "list_all srunning ws \<Longrightarrow> sbusys ws = [] \<Longrightarrow> ws = replicate (length ws) SWaiting"
proof (induction ws)
  case Nil
  then show ?case by simp
next
  case (Cons w ws)
  then show ?case by (cases w) (auto simp: sbusys_def)
qed

text \<open>When no task is unfinished, the queue is empty, every worker waits on
  it, and \<open>responses\<close> holds one answer per peer.\<close>

lemma search_finished:
  assumes "search_inv net ps s" and "s_unfinished s = 0"
  shows "sq s = []" and "s_workers s = replicate (length (s_workers s)) SWaiting"
    and "mset (s_responses s) = mset (map (resp_value \<circ> net) ps)"
  using assms idle_workers [of "s_workers s"] by (auto simp: search_inv_def)

lemma search_finish_Some:
  "search_finish s = Some (r, s') \<Longrightarrow> s_unfinished s = 0 \<and> r = aggregate (s_responses s)"
  by (auto simp: search_finish_def split: if_splits sum.splits)

lemma aggregate_Inr:
  "aggregate rs = Inr body \<Longrightarrow> \<exists>xs n m. agg_abs rs = Some (mset xs, n, m) \<and>
     body = JObj [(''results'', JArr xs), (''peers'', JObj [(''responded'', JNum (int n)), (''total'', JNum (int m))])]"
  by (auto simp: aggregate_def agg_abs_def split: sum.splits prod.splits)

lemma aggregate_Inl: "aggregate rs = Inl e \<longleftrightarrow> aggregate_parts rs = Inl e"
  by (auto simp: aggregate_def split: sum.splits prod.splits)

text \<open>The shutdown of lines 220--221: a sentinel per waiting worker ends them all.\<close>

lemma sentinels_drain:
  "list_all (\<lambda>w. w = SWaiting \<or> w = SExited) (s_workers s) \<Longrightarrow>
   sq s = replicate (count (mset (s_workers s)) SWaiting) None @ q \<Longrightarrow>
   \<exists>es. srun net s es = Some (s\<lparr>sq := q, s_workers := replicate (length (s_workers s)) SExited\<rparr>)"
proof (induction "count (mset (s_workers s)) SWaiting" arbitrary: s)
  case 0
  then have "\<forall>w\<in>set (s_workers s). w = SExited"
    by (auto simp: list_all_iff count_eq_zero_iff)
  then have "s_workers s = replicate (length (s_workers s)) SExited"
    by (simp add: replicate_length_same)
  then have "srun net s [] = Some (s\<lparr>sq := q, s_workers := replicate (length (s_workers s)) SExited\<rparr>)"
    using 0 by simp
  then show ?case by blast
next
  case (Suc n)
  have "SWaiting \<in> set (s_workers s)"
    using Suc.hyps(2) by (metis count_inI nat.simps(3) set_mset_mset)
  then obtain i where i: "i < length (s_workers s)" and w: "s_workers s ! i = SWaiting"
    by (metis in_set_conv_nth)
  define s1 where "s1 = s\<lparr>sq := replicate n None @ q, s_workers := (s_workers s)[i := SExited]\<rparr>"
  have st: "sstep net s (SDeq i) = Some s1"
    using i w Suc.prems(2) Suc.hyps(2) [symmetric] by (simp add: search_deq_def s1_def)
  have c: "n = count (mset (s_workers s1)) SWaiting"
    using i w Suc.hyps(2) by (simp add: s1_def mset_update)
  have "list_all (\<lambda>w. w = SWaiting \<or> w = SExited) (s_workers s1)"
    using Suc.prems(1) by (simp add: s1_def list_all_update)
  moreover have "sq s1 = replicate (count (mset (s_workers s1)) SWaiting) None @ q"
    using c by (simp add: s1_def)
  ultimately obtain es where "srun net s1 es =
      Some (s1\<lparr>sq := q, s_workers := replicate (length (s_workers s1)) SExited\<rparr>)"
    using Suc.hyps(1) [OF c] by blast
  then have "srun net s (SDeq i # es) =
      Some (s\<lparr>sq := q, s_workers := replicate (length (s_workers s)) SExited\<rparr>)"
    using st by (simp add: s1_def)
  then show ?case by blast
qed

lemma ex_srun: "srun ex_net (search_start ex_peers) ex_sevents = Some ex_search_done"
  by (simp add: ex_sevents_def search_start_def ex_peers_def WORKERS_def numeral_eq_Suc
      search_deq_def search_resp_def resp_value_def ex_net_def Let_def ex_search_done_def)

lemma ex_search_done_inv: "search_inv ex_net ex_peers ex_search_done"
  by (simp add: search_inv_def ex_search_done_def ex_peers_def ex_net_def resp_value_def
      sbusys_def WORKERS_def list_all_iff)

lemma ex_search_done_stuck: "sstep net ex_search_done e = None"
  by (cases e) (auto simp: ex_search_done_def search_deq_def search_resp_def WORKERS_def)

text \<open>
  C18. The search invariant holds after every interleaving of the search
  workers: each peer is queued, being fetched, or has exactly its own answer
  in \<open>responses\<close>.
\<close>

theorem srun_inv:
  "srun net (search_start ps) es = Some s \<Longrightarrow> search_inv net ps s"
  using srun_inv_measure [OF search_start_inv] by blast

text \<open>
  C21. Termination of the fan-out: every interleaving from the start of a
  search over \<open>ps\<close> has at most \<open>2 * |ps|\<close> events (one dequeue and one
  answer per peer).
\<close>

theorem srun_length_bound:
  "srun net (search_start ps) es = Some s \<Longrightarrow> length es \<le> 2 * length ps"
  using srun_inv_measure [OF search_start_inv, of net ps es s]
  by (simp add: smeasure_def search_start_def sbusys_def)

text \<open>
  A search state with the invariant where no worker event is enabled has no
  unfinished task.
\<close>

lemma search_inv_stuck:
  "search_inv net ps s \<Longrightarrow> s_workers s \<noteq> [] \<Longrightarrow> (\<forall>e. sstep net s e = None) \<Longrightarrow> s_unfinished s = 0"
proof (rule ccontr)
  assume inv: "search_inv net ps s" and ws: "s_workers s \<noteq> []"
    and stuck: "\<forall>e. sstep net s e = None" and u: "s_unfinished s \<noteq> 0"
  show False
  proof (cases "sbusys (s_workers s)")
    case (Cons p ps')
    then obtain i where "i < length (s_workers s)" "s_workers s ! i = SFetching p"
      using sbusys_member [of p "s_workers s"] by auto
    then have "sstep net s (SResp i) \<noteq> None"
      by (auto simp: search_resp_def Let_def split: sum.splits)
    with stuck [THEN spec, of "SResp i"] show False by simp
  next
    case Nil
    with inv u obtain p rest where q: "sq s = Some p # rest"
      by (cases "sq s") (auto simp: search_inv_def, metis not_None_eq)
    have i: "0 < length (s_workers s)" using ws by simp
    have "srunning (s_workers s ! 0)" using inv i by (auto simp: search_inv_def list_all_length)
    moreover have "sbusy (s_workers s ! 0) = []" using sbusys_Nil_nth [OF Nil i] .
    ultimately have "s_workers s ! 0 = SWaiting" by (cases "s_workers s ! 0") auto
    then have "sstep net s (SDeq 0) \<noteq> None" using i q by (simp add: search_deq_def)
    with stuck [THEN spec, of "SDeq 0"] show False by simp
  qed
qed

lemma sstep_workers_length:
  "sstep net s e = Some s' \<Longrightarrow> length (s_workers s') = length (s_workers s)"
  by (cases e) (auto simp: search_deq_def search_resp_def Let_def
      split: if_splits sworker.splits list.splits option.splits sum.splits)

lemma srun_workers_length:
  "srun net s es = Some s' \<Longrightarrow> length (s_workers s') = length (s_workers s)"
proof (induction es arbitrary: s)
  case (Cons e es)
  then show ?case by (auto split: option.splits dest: sstep_workers_length)
qed simp

text \<open>
  C20. No deadlock of the fan-out: in every interleaving of the search
  workers from the start of a search, a state where no worker event is
  enabled has no unfinished task, so \<open>peer_queue.join()\<close> returns.
\<close>

theorem search_no_deadlock:
  "srun net (search_start ps) es = Some s \<Longrightarrow> (\<forall>e. sstep net s e = None) \<Longrightarrow> s_unfinished s = 0"
proof -
  assume r: "srun net (search_start ps) es = Some s" and st: "\<forall>e. sstep net s e = None"
  have inv: "search_inv net ps s" using srun_inv_measure [OF search_start_inv r] by blast
  have "s_workers s \<noteq> []"
    using srun_workers_length [OF r] by (auto simp: search_start_def WORKERS_def)
  then show ?thesis using search_inv_stuck [OF inv _ st] by simp
qed

text \<open>
  C19. Refinement: when the fan-out has finished, the aggregate (as a multiset
  of results with the two counts, or a failure) is that of answering every
  peer in order, sequentially; only the order of the results depends on the
  schedule.
\<close>

theorem search_refines:
  "search_inv net ps s \<Longrightarrow> s_unfinished s = 0 \<Longrightarrow>
   agg_abs (s_responses s) = agg_abs (map (resp_value \<circ> net) ps)"
  by (rule agg_abs_mset) (rule search_finished(3))

text \<open>
  The counts of a successful search: \<open>total\<close> is the number of peers and
  \<open>responded\<close> the number of peers whose answer parsed to a non-null value.
\<close>

lemma search_counts:
  "search_inv net ps s \<Longrightarrow> s_unfinished s = 0 \<Longrightarrow> aggregate_parts (s_responses s) = Inr (xs, n, m) \<Longrightarrow>
   m = length ps \<and> n = length (filter (\<lambda>p. resp_value (net p) \<noteq> JNull) ps)"
proof -
  assume inv: "search_inv net ps s" and u: "s_unfinished s = 0"
    and a: "aggregate_parts (s_responses s) = Inr (xs, n, m)"
  let ?rs = "s_responses s"
  have M: "mset ?rs = mset (map (resp_value \<circ> net) ps)" using search_finished(3) [OF inv u] .
  have "mset (good_responses ?rs) = mset (good_responses (map (resp_value \<circ> net) ps))"
    using M by (simp add: good_responses_def mset_filter)
  then have "n = length (good_responses (map (resp_value \<circ> net) ps))"
    using a mset_eq_length by (fastforce simp: aggregate_parts_def split: sum.splits)
  moreover have "m = length ps"
    using a mset_eq_length [OF M] by (auto simp: aggregate_parts_def split: sum.splits)
  ultimately show ?thesis by (simp add: good_responses_def filter_map comp_def)
qed


lemma mset_eq_pair: "mset xs = {#a, b#} \<Longrightarrow> xs = [a, b] \<or> xs = [b, a]"
proof -
  assume m: "mset xs = {#a, b#}"
  then have "length xs = 2" by (metis size_mset size_add_mset size_empty numeral_2_eq_2)
  then obtain x y where "xs = [x, y]" by (metis length_0_conv length_Suc_conv numeral_2_eq_2)
  with m show ?thesis by (auto simp: add_mset_commute add_eq_conv_ex)
qed

text \<open>
  C22. The aggregation example of the specification: with peers \<open>a\<close>
  (answering \<open>[1, 2]\<close>), \<open>b\<close> (timing out) and \<open>c\<close> (answering \<open>[3]\<close>), every
  interleaving of the workers that drains the queue answers
  \<open>{"results": xs, "peers": {"responded": 2, "total": 3}}\<close> where \<open>xs\<close> keeps
  each peer's own order: \<open>[1, 2, 3]\<close> or \<open>[3, 1, 2]\<close>.
\<close>

theorem search_spec_example:
  "srun ex_net (search_start ex_peers) es = Some s \<Longrightarrow> s_unfinished s = 0 \<Longrightarrow>
   \<exists>xs s'. search_finish s =
       Some (Inr (JObj [(''results'', JArr xs), (''peers'', JObj [(''responded'', JNum 2), (''total'', JNum 3)])]), s') \<and>
     (xs = [JNum 1, JNum 2, JNum 3] \<or> xs = [JNum 3, JNum 1, JNum 2])"
proof -
  assume r: "srun ex_net (search_start ex_peers) es = Some s" and u: "s_unfinished s = 0"
  let ?A = "JObj [(''results'', JArr [JNum 1, JNum 2])]" and ?C = "JObj [(''results'', JArr [JNum 3])]"
  have inv: "search_inv ex_net ex_peers s"
    using srun_inv_measure [OF search_start_inv r] by blast
  have M: "mset (s_responses s) = {#?A, JNull, ?C#}"
    using search_finished(3) [OF inv u] by (simp add: ex_peers_def ex_net_def resp_value_def)
  then have "mset (good_responses (s_responses s)) = {#?A, ?C#}"
    by (simp add: good_responses_def mset_filter)
  then have g: "good_responses (s_responses s) = [?A, ?C] \<or> good_responses (s_responses s) = [?C, ?A]"
    by (rule mset_eq_pair)
  have l: "length (s_responses s) = 3"
    using arg_cong [OF M, of size] by simp
  show ?thesis
    using g l u by (auto simp: search_finish_def aggregate_def aggregate_parts_def results_of_def)
qed

text \<open>
  C23. A malformed answer fails the whole request: when some non-null answer
  has no iterable \<open>results\<close> entry, the aggregation raises (a \<open>KeyError\<close> or
  \<open>TypeError\<close>, which the handler's \<open>except IndexError\<close> does not catch).
\<close>

theorem aggregate_rejects_malformed:
  "r \<in> set rs \<Longrightarrow> r \<noteq> JNull \<Longrightarrow> \<not> results_ok r \<Longrightarrow> \<exists>e. aggregate rs = Inl e"
proof -
  assume "r \<in> set rs" "r \<noteq> JNull" "\<not> results_ok r"
  then have "\<not> list_all results_ok (good_responses rs)"
    by (auto simp: good_responses_def list_all_iff)
  then obtain e where "collect_results (good_responses rs) = Inl e"
    using collect_results_fail by blast
  then show ?thesis by (simp add: aggregate_Inl aggregate_parts_def)
qed

text \<open>
  C24. Shutdown after a successful search: the \<open>WORKERS\<close> sentinels put after
  the answer let every worker exit, emptying the queue.
\<close>

theorem search_shutdown:
  "search_inv net ps s \<Longrightarrow> length (s_workers s) = WORKERS \<Longrightarrow> search_finish s = Some (Inr body, s') \<Longrightarrow>
   \<exists>es. srun net s' es = Some (s'\<lparr>sq := [], s_workers := replicate WORKERS SExited\<rparr>)"
proof -
  assume inv: "search_inv net ps s" and l: "length (s_workers s) = WORKERS"
    and f: "search_finish s = Some (Inr body, s')"
  have u: "s_unfinished s = 0" using search_finish_Some [OF f] by simp
  have w: "s_workers s = replicate WORKERS SWaiting" using search_finished(2) [OF inv u] l by simp
  have s': "s' = s\<lparr>sq := replicate WORKERS None, s_unfinished := WORKERS\<rparr>"
    using f u search_finished(1) [OF inv u] by (auto simp: search_finish_def split: sum.splits)
  have "list_all (\<lambda>w. w = SWaiting \<or> w = SExited) (s_workers s')"
    and "sq s' = replicate (count (mset (s_workers s')) SWaiting) None @ []"
    using w s' by (simp_all add: list_all_iff)
  from sentinels_drain [OF this, of net] show ?thesis using w s' by simp
qed

text \<open>
  C25. Worker leak on a failed aggregation: when the aggregation raises, the
  handler exits before putting the sentinels, and the \<open>WORKERS\<close> workers stay
  blocked on the empty queue for ever: no worker event is enabled and none has
  exited.
\<close>

theorem search_error_leaks_workers:
  "search_inv net ps s \<Longrightarrow> search_finish s = Some (Inl e, s') \<Longrightarrow>
   s' = s \<and> (\<forall>ev. sstep net s' ev = None) \<and> SExited \<notin> set (s_workers s')"
proof -
  assume inv: "search_inv net ps s" and f: "search_finish s = Some (Inl e, s')"
  have u: "s_unfinished s = 0" using search_finish_Some [OF f] by simp
  have s': "s' = s" using f by (auto simp: search_finish_def split: if_splits sum.splits)
  have q: "sq s = []" and w: "s_workers s = replicate (length (s_workers s)) SWaiting"
    using search_finished [OF inv u] by simp_all
  have "sstep net s ev = None" for ev
  proof (cases ev)
    case (SDeq i)
    then show ?thesis using q by (simp add: search_deq_def split: sworker.splits)
  next
    case (SResp i)
    have "s_workers s ! i = SWaiting" if "i < length (s_workers s)"
      using that by (subst w) simp
    then show ?thesis using SResp by (simp add: search_resp_def)
  qed
  moreover have "SExited \<notin> set (s_workers s)" by (subst w) simp
  ultimately show ?thesis using s' by simp
qed


lemma srun_inv_witness:
  "srun ex_net (search_start ex_peers) ex_sevents = Some ex_search_done \<and>
   search_inv ex_net ex_peers ex_search_done"
  using srun_inv [OF ex_srun] ex_srun by simp

lemma srun_length_bound_witness:
  "srun ex_net (search_start ex_peers) ex_sevents = Some ex_search_done \<and>
   length ex_sevents \<le> 2 * length ex_peers"
  using srun_length_bound [OF ex_srun] ex_srun by simp

lemma search_no_deadlock_witness:
  "srun ex_net (search_start ex_peers) ex_sevents = Some ex_search_done \<and>
   (\<forall>e. sstep ex_net ex_search_done e = None) \<and> s_unfinished ex_search_done = 0"
  using search_no_deadlock [OF ex_srun] ex_srun ex_search_done_stuck by simp

lemma search_refines_witness:
  "search_inv ex_net ex_peers ex_search_done \<and> s_unfinished ex_search_done = 0 \<and>
   agg_abs (s_responses ex_search_done) = agg_abs (map (resp_value \<circ> ex_net) ex_peers)"
  using search_refines [OF ex_search_done_inv] ex_search_done_inv by (simp add: ex_search_done_def)

lemma search_spec_example_witness:
  "\<exists>xs s'. search_finish ex_search_done =
       Some (Inr (JObj [(''results'', JArr xs), (''peers'', JObj [(''responded'', JNum 2), (''total'', JNum 3)])]), s') \<and>
     (xs = [JNum 1, JNum 2, JNum 3] \<or> xs = [JNum 3, JNum 1, JNum 2])"
  using search_spec_example [OF ex_srun] by (simp add: ex_search_done_def)

lemma aggregate_rejects_malformed_witness:
  "JObj [(''peers'', JArr [])] \<in> set [JNull, JObj [(''peers'', JArr [])]] \<and>
   JObj [(''peers'', JArr [])] \<noteq> JNull \<and> \<not> results_ok (JObj [(''peers'', JArr [])]) \<and>
   (\<exists>e. aggregate [JNull, JObj [(''peers'', JArr [])]] = Inl e)"
proof -
  have r: "\<not> results_ok (JObj [(''peers'', JArr [])])" by (simp add: results_ok_def results_of_def)
  show ?thesis
    using aggregate_rejects_malformed [of "JObj [(''peers'', JArr [])]" "[JNull, JObj [(''peers'', JArr [])]]"] r
    by simp
qed

lemma search_shutdown_witness:
  "search_inv ex_net ex_peers ex_search_done \<and> length (s_workers ex_search_done) = WORKERS \<and>
   search_finish ex_search_done =
     Some (Inr (JObj [(''results'', JArr [JNum 1, JNum 2, JNum 3]),
                      (''peers'', JObj [(''responded'', JNum 2), (''total'', JNum 3)])]),
           ex_search_done\<lparr>sq := replicate WORKERS None, s_unfinished := WORKERS\<rparr>) \<and>
   (\<exists>es. srun ex_net (ex_search_done\<lparr>sq := replicate WORKERS None, s_unfinished := WORKERS\<rparr>) es =
      Some (ex_search_done\<lparr>s_unfinished := WORKERS, sq := [], s_workers := replicate WORKERS SExited\<rparr>))"
proof -
  have l: "length (s_workers ex_search_done) = WORKERS" by (simp add: ex_search_done_def)
  have f: "search_finish ex_search_done =
     Some (Inr (JObj [(''results'', JArr [JNum 1, JNum 2, JNum 3]),
                      (''peers'', JObj [(''responded'', JNum 2), (''total'', JNum 3)])]),
           ex_search_done\<lparr>sq := replicate WORKERS None, s_unfinished := WORKERS\<rparr>)"
    by (simp add: ex_search_done_def search_finish_def aggregate_def aggregate_parts_def
        good_responses_def results_of_def)
  show ?thesis
    using search_shutdown [OF ex_search_done_inv l f] ex_search_done_inv l f by simp
qed

lemma search_error_leaks_workers_witness:
  "search_inv ex_bad_net [''http://a/''] ex_bad_done \<and>
   search_finish ex_bad_done = Some (Inl KeyError, ex_bad_done) \<and>
   (\<forall>ev. sstep ex_bad_net ex_bad_done ev = None) \<and> SExited \<notin> set (s_workers ex_bad_done)"
proof -
  have inv: "search_inv ex_bad_net [''http://a/''] ex_bad_done"
    by (simp add: search_inv_def ex_bad_done_def ex_bad_net_def resp_value_def sbusys_def
        WORKERS_def list_all_iff)
  have f: "search_finish ex_bad_done = Some (Inl KeyError, ex_bad_done)"
    by (simp add: ex_bad_done_def search_finish_def aggregate_def aggregate_parts_def
        good_responses_def results_of_def)
  show ?thesis
    using search_error_leaks_workers [OF inv f] inv f by simp
qed


text \<open>
  C26. The body a search writes, after any interleaving of the workers, has
  the documented shape \<open>{"results": [...], "peers": {"responded": n,
  "total": m}}\<close>, where \<open>m\<close> is the number of peers asked and \<open>n\<close> the
  number whose answer parsed to a non-null value, so \<open>n \<le> m\<close>.
\<close>

theorem aggregate_body_ok:
  "srun net (search_start ps) es = Some s \<Longrightarrow> search_finish s = Some (Inr b, s') \<Longrightarrow>
   search_body_ok b \<and>
   (\<exists>xs. b = JObj [(''results'', JArr xs),
                   (''peers'', JObj [(''responded'', JNum (int (length (filter (\<lambda>p. resp_value (net p) \<noteq> JNull) ps)))),
                                     (''total'', JNum (int (length ps)))])])"
proof -
  assume r: "srun net (search_start ps) es = Some s" and f: "search_finish s = Some (Inr b, s')"
  have inv: "search_inv net ps s" using srun_inv_measure [OF search_start_inv r] by blast
  from search_finish_Some [OF f] have u: "s_unfinished s = 0" and a: "aggregate (s_responses s) = Inr b"
    by simp_all
  from a obtain xs n m where p: "aggregate_parts (s_responses s) = Inr (xs, n, m)"
    and b: "b = JObj [(''results'', JArr xs), (''peers'', JObj [(''responded'', JNum (int n)), (''total'', JNum (int m))])]"
    by (auto simp: aggregate_def split: sum.splits prod.splits)
  have nm: "m = length ps \<and> n = length (filter (\<lambda>p. resp_value (net p) \<noteq> JNull) ps)"
    using search_counts [OF inv u p] .
  have "n \<le> m" using p by (auto simp: aggregate_parts_def good_responses_def split: sum.splits)
  then show ?thesis using b nm by simp
qed

lemma aggregate_body_ok_witness:
  "srun ex_net (search_start ex_peers) ex_sevents = Some ex_search_done \<and>
   search_finish ex_search_done =
     Some (Inr (JObj [(''results'', JArr [JNum 1, JNum 2, JNum 3]),
                      (''peers'', JObj [(''responded'', JNum 2), (''total'', JNum 3)])]),
           ex_search_done\<lparr>sq := replicate WORKERS None, s_unfinished := WORKERS\<rparr>) \<and>
   search_body_ok (JObj [(''results'', JArr [JNum 1, JNum 2, JNum 3]),
                (''peers'', JObj [(''responded'', JNum 2), (''total'', JNum 3)])])"
proof -
  have f: "search_finish ex_search_done =
     Some (Inr (JObj [(''results'', JArr [JNum 1, JNum 2, JNum 3]),
                      (''peers'', JObj [(''responded'', JNum 2), (''total'', JNum 3)])]),
           ex_search_done\<lparr>sq := replicate WORKERS None, s_unfinished := WORKERS\<rparr>)"
    by (simp add: ex_search_done_def search_finish_def aggregate_def aggregate_parts_def
        good_responses_def results_of_def)
  show ?thesis using aggregate_body_ok [OF ex_srun f] ex_srun f by simp
qed

end
