(* ===== verification/Handlers.thy ===== *)
theory Handlers
  imports Refresh Search
begin

text \<open>
  The request handlers that wrap the components, and the process start-up:
  \<open>ServiceInfoHandler.get\<close> and \<open>PeerHandler.get\<close>
  (\<open>src/chord_federation/app.py\<close> lines 58--92), the whole
  \<open>SearchHandler.post\<close> (\<open>get_peers\<close> followed by the fan-out, lines
  191--223), the table set-up at import (lines 39--53) and the guard of
  \<open>run()\<close> (lines 370--373).  For comparison with the later packages of the
  repository: the service-info document of
  \<open>src/bento_federation_service/app.py\<close> (lines 31--45) and the constants
  \<open>SERVICE_TYPE\<close> and \<open>CHORD_URLS_SET\<close> of
  \<open>src/chord_federation_service/constants.py\<close>.
\<close>

section \<open>Service info\<close>

text \<open>
  The document written at lines 69--77; \<open>v\<close> is
  \<open>chord_federation.__version__\<close>.
\<close>

definition chord_service_info :: "string \<Rightarrow> json" where
  "chord_service_info v =
     JObj [(''id'', JStr ''ca.distributedgenomics.chord_federation''),
           (''name'', JStr ''CHORD Federation''),
           (''type'', JStr (''ca.distributedgenomics:chord_federation:'' @ v)),
           (''description'', JStr ''Federation service for a CHORD application.''),
           (''organization'', JObj [(''name'', JStr ''GenAP''), (''url'', JStr ''https://genap.ca/'')]),
           (''contactUrl'', JStr ''mailto:david.lougheed@mail.mcgill.ca''),
           (''version'', JStr v)]"

text \<open>
  Lines 60--77: unless the query argument \<open>update_peers\<close> (default
  \<open>"true"\<close>) is exactly \<open>"true"\<close>, no refresh; otherwise \<open>get_peers\<close>
  runs first.
\<close>

definition service_info_get ::
  "string \<Rightarrow> url \<Rightarrow> time \<Rightarrow> string option \<Rightarrow> url list \<Rightarrow> gevent list \<Rightarrow> app \<Rightarrow>
   (json \<times> app) option" where
  "service_info_get v chord_url now update_peers qs es a =
     (if env_get update_peers ''true'' = ''true''
      then map_option (\<lambda>(P, a'). (chord_service_info v, a')) (get_peers chord_url now qs es a)
      else if es = [] then Some (chord_service_info v, a) else None)"

section \<open>The peer list\<close>

text \<open>
  \<open>datetime.timestamp()\<close> on the naive datetime \<open>last_peers_update\<close>
  (a UTC reading from \<open>utcnow()\<close> or \<open>utcfromtimestamp(0)\<close>) reads it as
  local time: the result is the UTC reading minus the local offset \<open>tz\<close>
  from UTC, in seconds.
\<close>

definition py_naive_timestamp :: "time \<Rightarrow> time \<Rightarrow> time" where
  "py_naive_timestamp tz t = t - tz"

text \<open>
  The document of line 92, \<open>{"peers": list(peers), "last_updated": t}\<close>, with
  \<open>ps\<close> the order in which the set \<open>peers\<close> iterates.
\<close>

definition peers_body :: "url list \<Rightarrow> time \<Rightarrow> json" where
  "peers_body ps t = JObj [(''peers'', JArr (map JStr ps)), (''last_updated'', JReal t)]"

text \<open>Lines 85--92: \<open>get_peers\<close>, then the body \<open>{"peers": ..., "last_updated": ...}\<close>.\<close>

definition peer_get ::
  "time \<Rightarrow> url \<Rightarrow> time \<Rightarrow> url list \<Rightarrow> gevent list \<Rightarrow> app \<Rightarrow> ((url set \<times> time) \<times> app) option" where
  "peer_get tz chord_url now qs es a =
     map_option (\<lambda>(P, a'). ((P, py_naive_timestamp tz (last_peers_update a')), a'))
       (get_peers chord_url now qs es a)"

section \<open>The search request\<close>

text \<open>
  Lines 191--223: \<open>get_peers\<close>, the peers queued in the order \<open>ps\<close> in which
  the returned set iterates (Python leaves it unspecified, so it is a
  parameter), the fan-out run and the aggregation.  \<open>None\<close> while the fan-out
  has not finished.
\<close>

definition search_post ::
  "url \<Rightarrow> time \<Rightarrow> url list \<Rightarrow> gevent list \<Rightarrow> url list \<Rightarrow> (url \<Rightarrow> fetch_outcome) \<Rightarrow>
   sevent list \<Rightarrow> app \<Rightarrow> ((py_error + json) \<times> app) option" where
  "search_post chord_url now qs es ps net ses a =
     (case get_peers chord_url now qs es a of
        None \<Rightarrow> None
      | Some (P, a') \<Rightarrow>
          if set ps = P \<and> distinct ps then
            (case srun net (search_start ps) ses of
               None \<Rightarrow> None
             | Some s \<Rightarrow> map_option (\<lambda>(r, s'). (r, a')) (search_finish s))
          else None)"

section \<open>Start-up\<close>

text \<open>
  Lines 39--53: when the database file is new, or has no table \<open>peers\<close>,
  \<open>init_db\<close> creates it and seeds it; an existing table is left as it is.
  \<open>None\<close> is a missing table.
\<close>

definition startup_db :: "peer_table option \<Rightarrow> url \<Rightarrow> url \<Rightarrow> peer_table" where
  "startup_db t chord_url registry_url =
     (case t of None \<Rightarrow> init_db chord_url registry_url [] | Some d \<Rightarrow> d)"

text \<open>Lines 371--373: \<open>run()\<close> stops only when \<open>CHORD_URL\<close> is unset.\<close>

definition chord_run_guard :: "string option \<Rightarrow> bool" where
  "chord_run_guard cu \<longleftrightarrow> cu \<noteq> None"

section \<open>The later packages\<close>

text \<open>\<open>constants.py\<close> lines 44--46 (\<open>v\<close> is the package version).\<close>

definition SERVICE_TYPE :: "string \<Rightarrow> string" where
  "SERVICE_TYPE v = ''ca.c3g.chord:federation:'' @ v"

text \<open>\<open>constants.py\<close> lines 38, 40 and 54: both URLs set and not blank.\<close>

definition CHORD_URLS_SET :: "string option \<Rightarrow> string option \<Rightarrow> bool" where
  "CHORD_URLS_SET cu cr \<longleftrightarrow> py_strip (env_get cu '''') \<noteq> [] \<and> py_strip (env_get cr '''') \<noteq> []"

text \<open>The service-info document of \<open>bento_federation_service/app.py\<close> lines 31--45.\<close>

definition bento_service_info :: "string \<Rightarrow> string \<Rightarrow> string \<Rightarrow> string \<Rightarrow> json" where
  "bento_service_info sid name ty v =
     JObj [(''id'', JStr sid), (''name'', JStr name), (''type'', JStr ty),
           (''description'', JStr ''Federation service for a Bento platform node.''),
           (''organization'', JObj [(''name'', JStr ''C3G''), (''url'', JStr ''http://www.computationalgenomics.ca'')]),
           (''contactUrl'', JStr ''mailto:david.lougheed@mail.mcgill.ca''),
           (''version'', JStr v)]"

section \<open>Lemmas\<close>

lemma str_contains_no_head: "n \<noteq> [] \<Longrightarrow> hd n \<notin> set h \<Longrightarrow> \<not> str_contains n h"
proof (induction h)
  case Nil
  then show ?case by simp
next
  case (Cons ch cs)
  then show ?case by (cases n) auto
qed

lemma get_peers_start_total: "\<exists>P a1 co. get_peers_start u now qs a = (P, a1, co)"
  by (simp add: get_peers_start_def Let_def)


lemma get_peers_no_refresh:
  "\<not> refresh_needed now a \<Longrightarrow> get_peers u now qs es a = (if es = [] then Some (set (db a), a) else None)"
  by (simp add: get_peers_def get_peers_start_def select_peers_def)

text \<open>
  C36. \<open>GET /peers\<close> answers the table as it was before the call (not the
  refreshed one), leaves the table unchanged, and reports as
  \<open>last_updated\<close> the start time of the refresh it ran (or the previous
  one), shifted by the server's UTC offset.
\<close>

theorem peer_get_response:
  "peer_get tz u now qs es a = Some ((P, t), a') \<Longrightarrow>
   P = set (db a) \<and> db a' = db a \<and>
   t = (if refresh_needed now a then now else last_peers_update a) - tz"
proof -
  assume "peer_get tz u now qs es a = Some ((P, t), a')"
  then have g: "get_peers u now qs es a = Some (P, a')" and t: "t = last_peers_update a' - tz"
    by (auto simp: peer_get_def py_naive_timestamp_def)
  show ?thesis using get_peers_Some [OF g] t by simp
qed

text \<open>
  C37. \<open>GET /service-info\<close> answers the node's document and never changes
  the table; unless \<open>update_peers\<close> is exactly \<open>"true"\<close> (the default) it
  changes nothing at all.
\<close>

theorem service_info_effects:
  "service_info_get v u now up qs es a = Some (body, a') \<Longrightarrow>
   body = chord_service_info v \<and> db a' = db a \<and> (env_get up ''true'' \<noteq> ''true'' \<longrightarrow> a' = a)"
proof -
  assume s: "service_info_get v u now up qs es a = Some (body, a')"
  show ?thesis
  proof (cases "env_get up ''true'' = ''true''")
    case True
    then obtain P where "get_peers u now qs es a = Some (P, a')" and "body = chord_service_info v"
      using s by (auto simp: service_info_get_def)
    then show ?thesis using get_peers_Some [of u now qs es a P a'] True by simp
  next
    case False
    then show ?thesis using s by (simp add: service_info_get_def split: if_splits)
  qed
qed

lemma peer_get_response_witness:
  "\<exists>a'. peer_get 3600 ''a/'' 4000 [''a/'', ''b/''] ex_events ex_app = Some ((set [''a/'', ''b/''], 400), a') \<and>
        db a' = [''a/'', ''b/'']"
proof -
  have "\<exists>r. peer_get 3600 ''a/'' 4000 [''a/'', ''b/''] ex_events ex_app = Some r"
    by (simp add: peer_get_def get_peers_def get_peers_start_def refresh_needed_def STALENESS_def
        set_order_def join_finish_def select_peers_def ex_simps insert_commute numeral_eq_Suc insert_Diff_if)
  then obtain P t a' where r: "peer_get 3600 ''a/'' 4000 [''a/'', ''b/''] ex_events ex_app = Some ((P, t), a')"
    by (metis prod.collapse)
  have rn: "refresh_needed 4000 ex_app"
    by (simp add: refresh_needed_def STALENESS_def ex_app_def app_init_def)
  show ?thesis using peer_get_response [OF r] rn r by (simp add: ex_app_def app_init_def)
qed

lemma service_info_effects_witness:
  "\<exists>body a'. service_info_get ''1.0'' ''a/'' 4000 (Some ''false'') [] [] ex_app = Some (body, a') \<and>
     body = chord_service_info ''1.0'' \<and> a' = ex_app"
proof -
  have s: "service_info_get ''1.0'' ''a/'' 4000 (Some ''false'') [] [] ex_app =
             Some (chord_service_info ''1.0'', ex_app)"
    by (simp add: service_info_get_def env_get_def)
  show ?thesis using service_info_effects [OF s] s by (simp add: env_get_def)
qed

end
