(* ===== verification/Notify.thy ===== *)
theory Notify
  imports Registry
begin

text \<open>
  The inbound half of gossip: \<open>PeerHandler.post\<close>
  (\<open>src/chord_federation/app.py\<close> lines 94--163), which handles a notify
  \<open>{"self": ..., "peers": [...]}\<close> from another node.  The handler suspends at
  each \<open>client.fetch\<close> of a peer's service-info, so it is modelled as a start
  event and one event per returned fetch; every event is given the application
  state of that moment, which other handlers and the gossip workers may have
  changed in between.  Responses: 200 (including a duplicate notify), and 500
  for every exception that escapes the handler; the handler's
  \<open>except IndexError\<close> (400) cannot be reached (see \<open>notify_never_400\<close>).
\<close>

section \<open>Handler state\<close>

datatype response = Resp200 | Resp400 | Resp500 py_error

text \<open>
  The handler's locals between two suspensions: \<open>peer_self\<close> (as the key
  under which it is in \<open>notifying\<close>), the peers still to visit,
  \<open>attempted_contact\<close> and \<open>new_pci\<close>.
\<close>

record nstate =
  ns_self :: pykey
  ns_todo :: "json list"
  ns_attempted :: "pykey set"
  ns_new_pci :: bool

text \<open>
  After an event the handler either waits for the fetch of a peer (the item of
  \<open>peer_peers\<close> being fetched) or has finished with a response.
\<close>

datatype nphase = NAwait json nstate | NDone response

text \<open>The tag the \<open>type\<close> field must contain (line 138).\<close>

definition SERVICE_TAG :: string where
  "SERVICE_TAG = ''ca.distributedgenomics:chord_federation''"

section \<open>The loop over the notified peers\<close>

text \<open>
  Lines 124--131 and 154--158, run without suspending until the next fetch: an
  unhashable item raises \<open>TypeError\<close> out of the handler (\<open>peer_self\<close>
  stays in \<open>notifying\<close>); an attempted item and a URL that failed less than
  30 seconds ago are skipped; any other item is fetched.  When the list is
  exhausted, \<open>notifying.remove(peer_self)\<close> and \<open>peer_cache_invalidated =
  new_pci\<close>.  The membership tests and the cache lookup hash the item, so
  they compare items by Python equality (\<open>hash_key\<close>).
\<close>

fun notify_loop :: "time \<Rightarrow> app \<Rightarrow> json list \<Rightarrow> nstate \<Rightarrow> app \<times> nphase" where
  "notify_loop now a [] ns =
     (case set_remove (ns_self ns) (notifying a) of
        Inl e \<Rightarrow> (a, NDone (Resp500 e))
      | Inr nt \<Rightarrow> (a\<lparr>notifying := nt, peer_cache_invalidated := ns_new_pci ns\<rparr>, NDone Resp200))"
| "notify_loop now a (x # xs) ns =
     (case hash_key x of
        Inl e \<Rightarrow> (a, NDone (Resp500 e))
      | Inr k \<Rightarrow>
          if k \<in> ns_attempted ns then notify_loop now a xs ns
          else if recently_errored (last_errored a) now k then notify_loop now a xs ns
          else (a, NAwait x (ns\<lparr>ns_todo := xs\<rparr>)))"

text \<open>
  Lines 100--122: \<open>new_pci\<close> is read first; the body is parsed, \<open>self\<close> and
  \<open>peers\<close> are looked up (a failure escapes: 500); a \<open>peer_self\<close> already in
  \<open>notifying\<close> is acknowledged with 200 and nothing else; otherwise it is
  added to \<open>notifying\<close> and the loop starts (iterating a scalar raises
  \<open>TypeError\<close>, after the add).
\<close>

definition notify_start :: "url \<Rightarrow> time \<Rightarrow> json option \<Rightarrow> app \<Rightarrow> app \<times> nphase" where
  "notify_start chord_url now body a =
     (case body of
        None \<Rightarrow> (a, NDone (Resp500 ValueError))
      | Some rd \<Rightarrow>
          (case py_getitem rd ''self'' of
             Inl e \<Rightarrow> (a, NDone (Resp500 e))
           | Inr ps \<Rightarrow>
               (case py_getitem rd ''peers'' of
                  Inl e \<Rightarrow> (a, NDone (Resp500 e))
                | Inr pp \<Rightarrow>
                    (case hash_key ps of
                       Inl e \<Rightarrow> (a, NDone (Resp500 e))
                     | Inr k \<Rightarrow>
                         if k \<in> notifying a then (a, NDone Resp200)
                         else
                           (let a1 = a\<lparr>notifying := insert k (notifying a)\<rparr> in
                            case py_iter pp of
                              Inl e \<Rightarrow> (a1, NDone (Resp500 e))
                            | Inr xs \<Rightarrow>
                                notify_loop now a1 xs
                                  \<lparr>ns_self = k, ns_todo = xs, ns_attempted = {KStr chord_url},
                                   ns_new_pci = peer_cache_invalidated a\<rparr>)))))"

text \<open>
  Lines 133--152, when the fetch of item \<open>x\<close> returns: if the body parses and
  its \<open>type\<close> contains the tag, \<open>new_pci = new_pci or\<close> (the URL is not a
  row yet), \<open>INSERT OR IGNORE\<close> and commit; any exception (no body, bad JSON,
  no \<open>type\<close> key, a \<open>type\<close> that does not support \<open>in\<close>) records the URL in
  \<open>last_errored\<close>; in all cases the item is added to \<open>attempted_contact\<close>,
  and the loop goes on.  An item that is not a string formats to a URL with
  no scheme (\<open>5api/...\<close>, \<open>Noneapi/...\<close>), whose fetch always raises, so it
  takes the error branch whatever the network does.  The item is hashed again
  for \<open>last_errored[peer_url]\<close> and \<open>attempted_contact.add\<close>, as the code does.
\<close>

fun type_check :: "fetch_outcome \<Rightarrow> py_error + bool" where
  "type_check FetchFailed = Inl ValueError"
| "type_check (FetchBody None) = Inl ValueError"
| "type_check (FetchBody (Some j)) =
     (case py_getitem j ''type'' of Inl e \<Rightarrow> Inl e | Inr ty \<Rightarrow> py_contains SERVICE_TAG ty)"

definition notify_fetched :: "time \<Rightarrow> fetch_outcome \<Rightarrow> json \<Rightarrow> nstate \<Rightarrow> app \<Rightarrow> app \<times> nphase" where
  "notify_fetched now r x ns a =
     (case hash_key x of
        Inl e \<Rightarrow> (a, NDone (Resp500 e))
      | Inr k \<Rightarrow>
          (let ns1 = ns\<lparr>ns_attempted := insert k (ns_attempted ns)\<rparr>;
               failed = a\<lparr>last_errored := mark_errored (last_errored a) k now\<rparr> in
           case x of
             JStr u \<Rightarrow>
               (case type_check r of
                  Inl e \<Rightarrow> notify_loop now failed (ns_todo ns) ns1
                | Inr False \<Rightarrow> notify_loop now a (ns_todo ns) ns1
                | Inr True \<Rightarrow>
                    notify_loop now (a\<lparr>db := insert_or_ignore u (db a)\<rparr>) (ns_todo ns)
                      (ns1\<lparr>ns_new_pci := ns_new_pci ns \<or> peer_row_missing u (db a)\<rparr>))
           | _ \<Rightarrow> notify_loop now failed (ns_todo ns) ns1))"

text \<open>A handler run: the start, then the fetch results in the order they return.\<close>

fun notify_run :: "(time \<times> fetch_outcome) list \<Rightarrow> app \<times> nphase \<Rightarrow> (app \<times> nphase) option" where
  "notify_run [] s = Some s"
| "notify_run ((t, r) # rs) (a, NAwait x ns) = notify_run rs (notify_fetched t r x ns a)"
| "notify_run (_ # _) (a, NDone resp) = None"

section \<open>Example notify\<close>

text \<open>Node \<open>b/\<close> notifies node \<open>a/\<close> of \<open>a/\<close>, \<open>x/\<close> and a number.\<close>

definition ex_notify_body :: json where
  "ex_notify_body = JObj [(''self'', JStr ''b/''), (''peers'', JArr [JStr ''a/'', JStr ''x/'', JNum 5])]"

definition ex_nstate :: nstate where
  "ex_nstate = \<lparr>ns_self = KStr ''b/'', ns_todo = [], ns_attempted = {KStr ''a/''}, ns_new_pci = False\<rparr>"

section \<open>Lemmas\<close>

lemma notify_loop_db: "db (fst (notify_loop now a xs ns)) = db a"
  by (induction now a xs ns rule: notify_loop.induct) (auto split: sum.splits)

lemma notify_loop_last_errored: "last_errored (fst (notify_loop now a xs ns)) = last_errored a"
  by (induction now a xs ns rule: notify_loop.induct) (auto split: sum.splits)

text \<open>
  A fetch that fails (a string URL whose service-info does not parse, or any
  item that is not a string) records the item's key in \<open>last_errored\<close> at
  the time it returned.
\<close>

lemma notify_fetched_failed_marks:
  "hash_key x = Inr k \<Longrightarrow> (case x of JStr u \<Rightarrow> \<exists>e. type_check r = Inl e | _ \<Rightarrow> True) \<Longrightarrow>
   last_errored (fst (notify_fetched now r x ns a)) = (last_errored a)(k \<mapsto> now)"
  by (cases x) (auto simp: notify_fetched_def Let_def notify_loop_last_errored mark_errored_def)

lemma notify_loop_not_400: "snd (notify_loop now a xs ns) \<noteq> NDone Resp400"
  by (induction now a xs ns rule: notify_loop.induct) (auto split: sum.splits)

lemma notify_loop_await:
  "notify_loop now a xs ns = (a', NAwait y ns') \<Longrightarrow> length (ns_todo ns') < length xs \<and> a' = a"
  by (induction now a xs ns rule: notify_loop.induct) (auto split: if_splits sum.splits)

lemma notify_loop_done_nil:
  "ns_self ns \<in> notifying a \<Longrightarrow>
   notify_loop now a [] ns = (a\<lparr>notifying := notifying a - {ns_self ns},
                               peer_cache_invalidated := ns_new_pci ns\<rparr>, NDone Resp200)"
  by simp

lemma notify_fetched_await:
  "notify_fetched now r x ns a = (a', NAwait y ns') \<Longrightarrow> length (ns_todo ns') < length (ns_todo ns)"
  by (auto simp: notify_fetched_def Let_def split: json.splits sum.splits bool.splits
      dest!: notify_loop_await)

text \<open>
  C32. Type-tag gating: a fetch event adds to the registry exactly the fetched
  URL, and only when its service-info \<open>type\<close> contains the tag; the rest of
  the loop it runs inserts nothing.
\<close>

theorem notify_fetched_registry:
  "set (db (fst (notify_fetched now r x ns a))) =
     set (db a) \<union> (case x of JStr u \<Rightarrow> if type_check r = Inr True then {u} else {} | _ \<Rightarrow> {})"
  by (auto simp: notify_fetched_def Let_def notify_loop_db split: json.splits sum.splits bool.splits)

text \<open>
  Duplicate notifies: a notify whose \<open>self\<close> is already being processed
  is answered 200 and changes nothing.
\<close>

lemma notify_duplicate:
  "py_getitem rd ''self'' = Inr ps \<Longrightarrow> py_getitem rd ''peers'' = Inr pp \<Longrightarrow> hash_key ps = Inr k \<Longrightarrow>
   k \<in> notifying a \<Longrightarrow> notify_start u now (Some rd) a = (a, NDone Resp200)"
  by (simp add: notify_start_def)

text \<open>
  The handler never answers 400: the \<open>except IndexError\<close> of line 160 is
  dead, and a body without \<open>self\<close> or \<open>peers\<close>, or that is not JSON, raises
  an uncaught \<open>KeyError\<close>, \<open>TypeError\<close> or \<open>ValueError\<close> (500).
\<close>

lemma notify_never_400:
  "snd (notify_start u now body a) \<noteq> NDone Resp400 \<and>
   snd (notify_fetched now r x ns a) \<noteq> NDone Resp400"
  by (auto simp: notify_start_def notify_fetched_def Let_def notify_loop_not_400
      split: option.splits sum.splits json.splits bool.splits)

text \<open>
  C33. Lost update of the invalidation flag: when the last fetch of a notify
  returns, the flag is set to the handler's \<open>new_pci\<close> (the flag read when the
  notify started, or'ed with this insertion being new), whatever value another
  handler or a refresh wrote in the meantime.
\<close>

theorem notify_overwrites_invalidation:
  "ns_todo ns = [] \<Longrightarrow> ns_self ns \<in> notifying a \<Longrightarrow> hash_key x = Inr k \<Longrightarrow>
   peer_cache_invalidated (fst (notify_fetched now r x ns a)) =
     (ns_new_pci ns \<or> (\<exists>u. x = JStr u \<and> type_check r = Inr True \<and> u \<notin> set (db a)))"
  by (auto simp: notify_fetched_def Let_def peer_row_missing_def
      split: json.splits sum.splits bool.splits)

text \<open>
  C34. Lock-out after a malformed \<open>peers\<close>: when \<open>peers\<close> is not iterable
  the handler fails with 500 after adding \<open>self\<close> to \<open>notifying\<close>, and never
  removes it, so every later notify from the same node is acknowledged as a
  duplicate without being processed.
\<close>

theorem notify_lockout:
  "py_getitem rd ''self'' = Inr ps \<Longrightarrow> py_getitem rd ''peers'' = Inr pp \<Longrightarrow> hash_key ps = Inr k \<Longrightarrow>
   k \<notin> notifying a \<Longrightarrow> py_iter pp = Inl e \<Longrightarrow>
   \<exists>a'. notify_start u now (Some rd) a = (a', NDone (Resp500 e)) \<and> k \<in> notifying a' \<and>
        (\<forall>rd' ps' pp' now'. py_getitem rd' ''self'' = Inr ps' \<longrightarrow> hash_key ps' = Inr k \<longrightarrow>
           py_getitem rd' ''peers'' = Inr pp' \<longrightarrow> notify_start u now' (Some rd') a' = (a', NDone Resp200))"
  by (auto simp: notify_start_def Let_def)

text \<open>
  Dead-peer suppression in the notify handler: a peer that failed less than
  30 seconds ago is skipped without a fetch.
\<close>

lemma notify_skips_recently_errored:
  "hash_key x = Inr k \<Longrightarrow> recently_errored (last_errored a) now k \<Longrightarrow> k \<notin> ns_attempted ns \<Longrightarrow>
   notify_loop now a (x # xs) ns = notify_loop now a xs ns"
  by simp

text \<open>
  C35. Termination of a notify: a handler waiting on a fetch with \<open>n\<close> peers
  left answers after at most \<open>n + 1\<close> further fetch results.
\<close>

theorem notify_responds:
  "Suc (length (ns_todo ns)) \<le> length rs \<Longrightarrow>
   \<exists>k \<le> Suc (length (ns_todo ns)). \<exists>a' resp.
     notify_run (take k rs) (a, NAwait x ns) = Some (a', NDone resp)"
proof (induction rs arbitrary: a x ns)
  case Nil
  then show ?case by simp
next
  case (Cons tr rs)
  obtain t r where tr: "tr = (t, r)" by fastforce
  show ?case
  proof (cases "notify_fetched t r x ns a")
    case (Pair a1 ph)
    show ?thesis
    proof (cases ph)
      case (NDone resp)
      then show ?thesis using Pair tr by (intro exI [of _ 1]) simp
    next
      case (NAwait y ns1)
      have l: "length (ns_todo ns1) < length (ns_todo ns)"
        using notify_fetched_await Pair NAwait by blast
      then have "Suc (length (ns_todo ns1)) \<le> length rs" using Cons.prems by simp
      from Cons.IH [OF this] obtain k a' resp where k: "k \<le> Suc (length (ns_todo ns1))"
        and run: "notify_run (take k rs) (a1, NAwait y ns1) = Some (a', NDone resp)" by blast
      have "notify_run (take (Suc k) (tr # rs)) (a, NAwait x ns) = Some (a', NDone resp)"
        using run Pair NAwait tr by simp
      moreover have "Suc k \<le> Suc (length (ns_todo ns))" using k l by simp
      ultimately show ?thesis by blast
    qed
  qed
qed


section \<open>Witnesses\<close>

theorem notify_overwrites_invalidation_witness:
  "peer_cache_invalidated
     (fst (notify_fetched 2 FetchFailed (JStr ''x/'') ex_nstate
        ((app_init [''a/'', ''b/''])\<lparr>notifying := {KStr ''b/''}, peer_cache_invalidated := True\<rparr>))) = False"
  using notify_overwrites_invalidation [of ex_nstate
      "(app_init [''a/'', ''b/''])\<lparr>notifying := {KStr ''b/''}, peer_cache_invalidated := True\<rparr>"
      "JStr ''x/''" "KStr ''x/''" 2 FetchFailed]
  by (simp add: ex_nstate_def)

theorem notify_lockout_witness:
  "\<exists>a'. notify_start ''a/'' 1 (Some (JObj [(''self'', JStr ''b/''), (''peers'', JNum 5)]))
          (app_init [''a/'', ''b/'']) = (a', NDone (Resp500 TypeError)) \<and>
        notify_start ''a/'' 9 (Some ex_notify_body) a' = (a', NDone Resp200)"
proof -
  from notify_lockout [of "JObj [(''self'', JStr ''b/''), (''peers'', JNum 5)]" "JStr ''b/''" "JNum 5" "KStr ''b/''"
      "app_init [''a/'', ''b/'']" TypeError "''a/''" 1]
  obtain a' where "notify_start ''a/'' 1 (Some (JObj [(''self'', JStr ''b/''), (''peers'', JNum 5)]))
          (app_init [''a/'', ''b/'']) = (a', NDone (Resp500 TypeError))"
    and "\<forall>rd' ps' pp' now'. py_getitem rd' ''self'' = Inr ps' \<longrightarrow> hash_key ps' = Inr (KStr ''b/'') \<longrightarrow>
           py_getitem rd' ''peers'' = Inr pp' \<longrightarrow> notify_start ''a/'' now' (Some rd') a' = (a', NDone Resp200)"
    by (auto simp: app_init_def)
  then show ?thesis by (auto simp: ex_notify_body_def)
qed

theorem notify_responds_witness:
  "\<exists>k \<le> 2. \<exists>a' resp. notify_run (take k [(2, FetchFailed), (3, FetchFailed)])
     ((app_init [''a/'', ''b/''])\<lparr>notifying := {KStr ''b/''}\<rparr>,
      NAwait (JStr ''x/'') (ex_nstate\<lparr>ns_todo := [JNum 5]\<rparr>)) = Some (a', NDone resp)"
  using notify_responds [of "ex_nstate\<lparr>ns_todo := [JNum 5]\<rparr>" "[(2, FetchFailed), (3, FetchFailed)]"
      "(app_init [''a/'', ''b/''])\<lparr>notifying := {KStr ''b/''}\<rparr>" "JStr ''x/''"]
  by (simp add: numeral_2_eq_2)

end
