(* ===== verification/Gossip_Faults.thy ===== *)
theory Gossip_Faults
  imports Refresh
begin

text \<open>
  What a worker crash, or a reported \<open>null\<close>, does to a refresh.  A gossip
  worker whose GET answer makes \<open>peers.union\<close> raise (\<open>GetCrash\<close>,
  \<open>src/chord_federation/app.py\<close> line 289) leaves the coroutine without
  \<open>task_done\<close>, and so does a worker that dequeues the \<open>None\<close> a reported
  \<open>null\<close> put on the queue (line 232).  The queue's count of
  unfinished tasks minus the peers queued or being contacted, \<open>gdeficit\<close>, is
  zero under the cycle invariant, never decreases on any event, and grows by
  one on either; so \<open>peers_to_check.join()\<close> never returns, and
  \<open>fetching_peers\<close> stays set.
\<close>

definition gdeficit :: "cycle \<Rightarrow> int" where
  "gdeficit c = int (unfinished c) - int (length (to_check c)) - int (length (busy (workers c)))"

section \<open>The deficit never decreases\<close>

lemma length_busy_update:
  "i < length ws \<Longrightarrow>
   int (length (busy (ws[i := w]))) = int (length (busy ws)) - int (length (wbusy (ws ! i))) + int (length (wbusy w))"
  using sum_list_map_update [of i ws "\<lambda>w. length (wbusy w)" w]
  by (simp add: busy_def length_concat comp_def)

lemma skip_item_deficit:
  assumes "i < length (workers c)" "wbusy (workers c ! i) = []" "skip_item i p (a, c) = (a', c')"
  shows "gdeficit c - 1 \<le> gdeficit c'"
  using assms length_busy_update [OF assms(1)]
  by (auto simp: skip_item_def gdeficit_def task_done_def split: sum.splits if_splits)

lemma take_item_deficit:
  assumes "i < length (workers c)" "workers c ! i = Waiting P" "take_item i now P item (a, c) = (a', c')"
  shows "gdeficit c - 1 \<le> gdeficit c'"
proof (cases item)
  case None
  then show ?thesis using assms length_busy_update [OF assms(1), of Exited] by (auto simp: gdeficit_def)
next
  case (Some p)
  have "gdeficit c - 1 \<le> gdeficit c'" if "skip_item i p (a, c) = (a', c')"
    using skip_item_deficit [OF assms(1) _ that] assms(2) by simp
  moreover have "int (length (busy ((workers c)[i := Posting P p]))) = int (length (busy (workers c))) + 1"
    using length_busy_update [OF assms(1), of "Posting P p"] assms(2) by simp
  ultimately show ?thesis using assms(3) Some by (auto simp: gdeficit_def split: if_splits)
qed

lemma worker_dequeue_deficit:
  assumes "worker_dequeue i t (a, c) = Some (a', c')"
  shows "gdeficit c \<le> gdeficit c'"
proof -
  obtain P item rest where i: "i < length (workers c)" and w: "workers c ! i = Waiting P"
    and q: "to_check c = item # rest" and s: "take_item i t P item (a, c\<lparr>to_check := rest\<rparr>) = (a', c')"
    using assms by (auto simp: worker_dequeue_def split: if_splits worker.splits list.splits)
  have "gdeficit (c\<lparr>to_check := rest\<rparr>) = gdeficit c + 1" using q by (simp add: gdeficit_def)
  with take_item_deficit [of i "c\<lparr>to_check := rest\<rparr>" P t item a a' c'] i w s show ?thesis by simp
qed

lemma finish_contact_deficit:
  assumes i: "i < length (workers c)" and w: "wbusy (workers c ! i) = [p]"
    and f: "finish_contact i P p L (a, c) = (a', c')"
  shows "gdeficit c \<le> gdeficit c'"
proof -
  let ?N = "new_peers (to_check_set c \<union> contacting a \<union> attempted c) L"
  have b: "int (length (busy ((workers c)[i := x]))) = int (length (busy (workers c))) - 1"
    if "wbusy x = []" for x
    using length_busy_update [OF i, of x] w that by simp
  show ?thesis
    using f b [of "Crashed e" for e] b [of "Waiting (P \<union> set L)"]
    by (auto simp: finish_contact_def enqueue_new_eq Let_def gdeficit_def task_done_def
        split: sum.splits if_splits)
qed

lemma gstep_deficit:
  assumes "gstep (a, c) e = Some (a', c')"
  shows "gdeficit c \<le> gdeficit c'"
proof (cases e)
  case (Deq i t)
  then show ?thesis using assms worker_dequeue_deficit by simp
next
  case (PostDone i t r)
  with assms obtain P p where i: "i < length (workers c)" and w: "workers c ! i = Posting P p"
    by (auto simp: post_done_def split: if_splits worker.splits)
  have "int (length (busy ((workers c)[i := Getting P p]))) = int (length (busy (workers c)))"
    using length_busy_update [OF i, of "Getting P p"] w by simp
  then show ?thesis using assms PostDone i w finish_contact_deficit [OF i, of p P "[]"]
    by (cases r) (auto simp: post_done_def gdeficit_def)
next
  case (GetDone i t r)
  with assms obtain P p where i: "i < length (workers c)" and w: "workers c ! i = Getting P p"
    by (auto simp: get_done_def split: if_splits worker.splits)
  have "int (length (busy ((workers c)[i := Crashed x]))) = int (length (busy (workers c))) - 1" for x
    using length_busy_update [OF i, of "Crashed x"] w by simp
  then show ?thesis using assms GetDone i w finish_contact_deficit [OF i, of p P]
    by (cases r) (auto simp: get_done_def gdeficit_def)
qed

lemma grun_deficit: "grun (a, c) es = Some (a', c') \<Longrightarrow> gdeficit c \<le> gdeficit c'"
proof (induction es arbitrary: a c)
  case (Cons e es)
  then obtain a1 c1 where st: "gstep (a, c) e = Some (a1, c1)" and run: "grun (a1, c1) es = Some (a', c')"
    by (auto split: option.splits)
  from gstep_deficit [OF st] Cons.IH [OF run] show ?case by simp
qed simp

lemma crash_deficit:
  "gstep (a, c) (GetDone i t (GetCrash e)) = Some (a', c') \<Longrightarrow>
   gdeficit c' = gdeficit c + 1 \<and> fetching_peers a' = fetching_peers a"
proof -
  assume st: "gstep (a, c) (GetDone i t (GetCrash e)) = Some (a', c')"
  then obtain P p where i: "i < length (workers c)" and w: "workers c ! i = Getting P p"
    by (auto simp: get_done_def split: if_splits worker.splits)
  have "int (length (busy ((workers c)[i := Crashed e]))) = int (length (busy (workers c))) - 1"
    using length_busy_update [OF i, of "Crashed e"] w by simp
  then show ?thesis using st i w by (auto simp: get_done_def gdeficit_def)
qed

lemma cycle_inv_deficit: "cycle_inv (a, c) \<Longrightarrow> gdeficit c = 0"
  by (simp add: cycle_inv_def gdeficit_def)

lemma grun_append: "grun s (xs @ ys) = Option.bind (grun s xs) (\<lambda>s'. grun s' ys)"
  by (induction xs arbitrary: s) (auto split: option.splits)


text \<open>
  Once the deficit of a started cycle has grown, \<open>join()\<close> never returns and
  \<open>fetching_peers\<close> stays set.
\<close>

lemma deficit_blocks:
  assumes start: "get_peers_start u now qs a = (P, a1, Some c1)"
    and o: "set_order qs P" and ct: "contacting a = {}"
    and r1: "grun (a1, c1) es1 = Some (a2, c2)" and st: "gstep (a2, c2) e = Some (a3, c3)"
    and inc: "gdeficit c3 = gdeficit c2 + 1" and r2: "grun (a3, c3) es2 = Some (a', c')"
  shows "join_finish (a', c') = None \<and> (\<forall>u' now' qs'. snd (snd (get_peers_start u' now' qs' a')) = None)"
proof -
  have a1: "a1 = a\<lparr>fetching_peers := True, last_peers_update := now\<rparr>" and c1: "c1 = cycle_start u qs"
    using get_peers_start_Some [OF start] by simp_all
  have d: "distinct qs" using o by (simp add: set_order_def)
  have inv: "cycle_inv (a1, c1)" using cycle_start_inv [OF d, of a1 u] ct by (simp add: a1 c1)
  have "gdeficit c1 \<le> gdeficit c2" using grun_deficit [OF r1] .
  moreover have "gdeficit c3 \<le> gdeficit c'" using grun_deficit [OF r2] .
  ultimately have "1 \<le> gdeficit c'" using cycle_inv_deficit [OF inv] inc by simp
  then have "unfinished c' \<noteq> 0" by (auto simp: gdeficit_def)
  moreover have "fetching_peers a' = True"
    using grun_frame [OF r1] gstep_frame [OF st] grun_frame [OF r2] a1
    by (simp add: app_frame_def)
  ultimately show ?thesis
    by (simp add: join_finish_def get_peers_start_def refresh_needed_def Let_def)
qed

text \<open>A worker that dequeues \<open>None\<close> returns, and the item's task stays unfinished.\<close>

lemma sentinel_deficit:
  "to_check c = None # rest \<Longrightarrow> gstep (a, c) (Deq i t) = Some (a', c') \<Longrightarrow>
   gdeficit c' = gdeficit c + 1"
  by (auto simp: worker_dequeue_def gdeficit_def length_busy_update split: if_splits worker.splits)

lemma gstep_crash_fetching:
  "gstep (a, c) e = Some (a', c') \<Longrightarrow> fetching_peers a' = fetching_peers a"
  using gstep_frame [of a c e a' c'] by (simp add: app_frame_def)

text \<open>
  C10. A malformed peer list blocks gossip for good: once a refresh has
  started, if one worker's GET answer makes \<open>peers.union\<close> raise, then
  whatever the other workers do, \<open>join()\<close> never returns (the code after it is
  never enabled) and \<open>fetching_peers\<close> stays set, so every later
  \<open>get_peers\<close> call starts no cycle until the process restarts.
\<close>

theorem crash_blocks_refresh:
  assumes start: "get_peers_start u now qs a = (P, a1, Some c1)"
    and o: "set_order qs P" and ct: "contacting a = {}"
    and run: "grun (a1, c1) (es1 @ GetDone i t (GetCrash e) # es2) = Some (a', c')"
  shows "join_finish (a', c') = None \<and> (\<forall>u' now' qs'. snd (snd (get_peers_start u' now' qs' a')) = None)"
proof -
  obtain a2 c2 a3 c3 where r1: "grun (a1, c1) es1 = Some (a2, c2)"
    and st: "gstep (a2, c2) (GetDone i t (GetCrash e)) = Some (a3, c3)"
    and r2: "grun (a3, c3) es2 = Some (a', c')"
    using run by (auto simp: grun_append bind_eq_Some_conv split: option.splits)
  show ?thesis using deficit_blocks [OF start o ct r1 st _ r2] crash_deficit [OF st] by simp
qed

text \<open>
  C11. A null in a reported peer list blocks gossip for good: once a refresh
  has started, if a worker dequeues the \<open>None\<close> that a peer's \<open>null\<close>
  put on the queue, it returns on it as on the exit sentinel without
  \<open>task_done\<close>, and whatever the other workers do, \<open>join()\<close> never returns
  and \<open>fetching_peers\<close> stays set.
\<close>

theorem null_blocks_refresh:
  assumes start: "get_peers_start u now qs a = (P, a1, Some c1)"
    and o: "set_order qs P" and ct: "contacting a = {}"
    and r1: "grun (a1, c1) es1 = Some (a2, c2)" and q: "to_check c2 = None # rest"
    and run: "grun (a2, c2) (Deq i t # es2) = Some (a', c')"
  shows "join_finish (a', c') = None \<and> (\<forall>u' now' qs'. snd (snd (get_peers_start u' now' qs' a')) = None)"
proof -
  obtain a3 c3 where st: "gstep (a2, c2) (Deq i t) = Some (a3, c3)"
    and r2: "grun (a3, c3) es2 = Some (a', c')"
    using run by (auto split: option.splits)
  show ?thesis using deficit_blocks [OF start o ct r1 st _ r2] sentinel_deficit [OF q st] by simp
qed

lemma crash_blocks_refresh_witness:
  "read_get_body (Some (JObj [(''peers'', JNum 5)])) = GetCrash TypeError \<and>
   set_order [''a/'', ''b/''] (set (db ex_app)) \<and>
   get_peers_start ''a/'' 4000 [''a/'', ''b/''] ex_app =
     (set (db ex_app), ex_app\<lparr>fetching_peers := True, last_peers_update := 4000\<rparr>, Some ex_cycle) \<and>
   (\<exists>a' c'. grun (ex_app\<lparr>fetching_peers := True, last_peers_update := 4000\<rparr>, ex_cycle)
        ([Deq 0 1, Deq 0 1, PostDone 0 2 PostOk] @ GetDone 0 3 (GetCrash TypeError) # []) = Some (a', c') \<and>
      join_finish (a', c') = None \<and> (\<forall>u' now' qs'. snd (snd (get_peers_start u' now' qs' a')) = None))"
proof -
  have rd: "read_get_body (Some (JObj [(''peers'', JNum 5)])) = GetCrash TypeError"
    by (simp add: read_get_body_def)
  have st: "get_peers_start ''a/'' 4000 [''a/'', ''b/''] ex_app =
     (set (db ex_app), ex_app\<lparr>fetching_peers := True, last_peers_update := 4000\<rparr>, Some ex_cycle)"
    by (simp add: get_peers_start_def refresh_needed_def STALENESS_def select_peers_def ex_app_def
        app_init_def ex_cycle_def)
  have d: "set_order [''a/'', ''b/''] (set (db ex_app))" and ct: "contacting ex_app = {}"
    by (simp_all add: ex_app_def app_init_def set_order_def)
  have "\<exists>a' c'. grun (ex_app\<lparr>fetching_peers := True, last_peers_update := 4000\<rparr>, ex_cycle)
        ([Deq 0 1, Deq 0 1, PostDone 0 2 PostOk] @ GetDone 0 3 (GetCrash TypeError) # []) = Some (a', c')"
    by (simp add: ex_simps numeral_eq_Suc insert_Diff_if)
  then obtain a' c' where r: "grun (ex_app\<lparr>fetching_peers := True, last_peers_update := 4000\<rparr>, ex_cycle)
        ([Deq 0 1, Deq 0 1, PostDone 0 2 PostOk] @ GetDone 0 3 (GetCrash TypeError) # []) = Some (a', c')"
    by blast
  show ?thesis using crash_blocks_refresh [OF st d ct r] rd d st r by blast
qed

lemma null_blocks_refresh_witness:
  "read_get_body (Some (JObj [(''peers'', JArr [JNull])])) = GetPeers [KNone] \<and>
   set_order [''a/'', ''b/''] (set (db ex_app)) \<and>
   get_peers_start ''a/'' 4000 [''a/'', ''b/''] ex_app =
     (set (db ex_app), ex_app\<lparr>fetching_peers := True, last_peers_update := 4000\<rparr>, Some ex_cycle) \<and>
   (\<exists>a2 c2 rest a' c'.
      grun (ex_app\<lparr>fetching_peers := True, last_peers_update := 4000\<rparr>, ex_cycle)
        [Deq 0 1, Deq 0 1, PostDone 0 2 PostOk, GetDone 0 3 (GetPeers [KNone])] = Some (a2, c2) \<and>
      to_check c2 = None # rest \<and> grun (a2, c2) [Deq 1 4] = Some (a', c') \<and>
      join_finish (a', c') = None \<and> (\<forall>u' now' qs'. snd (snd (get_peers_start u' now' qs' a')) = None))"
proof -
  let ?a1 = "ex_app\<lparr>fetching_peers := True, last_peers_update := 4000\<rparr>"
  have rd: "read_get_body (Some (JObj [(''peers'', JArr [JNull])])) = GetPeers [KNone]"
    by (simp add: read_get_body_def)
  have st: "get_peers_start ''a/'' 4000 [''a/'', ''b/''] ex_app = (set (db ex_app), ?a1, Some ex_cycle)"
    by (simp add: get_peers_start_def refresh_needed_def STALENESS_def select_peers_def ex_app_def
        app_init_def ex_cycle_def)
  have d: "set_order [''a/'', ''b/''] (set (db ex_app))" and ct: "contacting ex_app = {}"
    by (simp_all add: ex_app_def app_init_def set_order_def)
  have "\<exists>a2 c2. grun (?a1, ex_cycle) [Deq 0 1, Deq 0 1, PostDone 0 2 PostOk, GetDone 0 3 (GetPeers [KNone])] =
      Some (a2, c2) \<and> to_check c2 = [None] \<and> (\<exists>a' c'. grun (a2, c2) [Deq 1 4] = Some (a', c'))"
    by (simp add: ex_simps numeral_eq_Suc insert_Diff_if)
  then obtain a2 c2 a' c' where
    r1: "grun (?a1, ex_cycle) [Deq 0 1, Deq 0 1, PostDone 0 2 PostOk, GetDone 0 3 (GetPeers [KNone])] = Some (a2, c2)"
    and q: "to_check c2 = None # []" and r2: "grun (a2, c2) [Deq 1 4] = Some (a', c')"
    by blast
  show ?thesis using null_blocks_refresh [OF st d ct r1 q r2] rd d st r1 q r2 by blast
qed

end
