(* ===== verification/Gossip_Bounds.thy ===== *)
theory Gossip_Bounds
  imports Gossip
begin

text \<open>
  A gossip cycle (\<open>src/chord_federation/app.py\<close> lines 227--328) whatever
  the peers answer, including answers that make \<open>peers.union\<close> raise out of
  a worker (line 289).  Such a crash leaves its peer in \<open>contacting\<close> and in
  \<open>peers_to_check_set\<close> and its queue task unfinished, so the exact
  invariant \<open>cycle_inv\<close> of theory \<open>Gossip\<close> no longer holds; nor
  does it after a reported \<open>null\<close>, which a worker dequeues as the
  sentinel \<open>None\<close> and returns on without \<open>task_done\<close>.  The
  invariant \<open>cycle_wf\<close> below tolerates it: it keeps the facts that make the
  worker's own \<open>set.remove\<close> and \<open>task_done\<close> calls succeed, and it holds
  after every event.  From it: every interleaving has at most \<open>gmeasure U\<close>
  events, the "avoiding race" branch is never taken, no attempted peer is
  contacted again, and \<open>contacting\<close> never holds more than \<open>WORKERS\<close>
  peers.
\<close>

section \<open>A crash-tolerant invariant\<close>

text \<open>
  The entries a worker keeps in \<open>contacting\<close>: one while it contacts a
  peer, and one after it died in \<open>peers.union\<close>, which leaves its peer there.
\<close>

fun held :: "worker \<Rightarrow> nat" where
  "held (Posting P p) = 1"
| "held (Getting P p) = 1"
| "held (Crashed e) = 1"
| "held _ = 0"

text \<open>
  A worker that took \<open>None\<close> off the queue returns without
  \<open>task_done\<close>.  Within a cycle the sentinels are not yet queued, so such a
  \<open>None\<close> is a \<open>null\<close> some peer reported, and its task stays unfinished.
\<close>

fun exited :: "worker \<Rightarrow> nat" where
  "exited Exited = 1"
| "exited _ = 0"

definition cycle_wf :: "gstate \<Rightarrow> bool" where
  "cycle_wf s \<longleftrightarrow>
     (let (a, c) = s in
      distinct (queued (to_check c) @ busy (workers c)) \<and>
      set (queued (to_check c)) \<union> set (busy (workers c)) \<subseteq> to_check_set c \<and>
      set (busy (workers c)) \<subseteq> contacting a \<and>
      set (queued (to_check c)) \<inter> contacting a = {} \<and>
      contacting a \<inter> attempted c = {} \<and>
      length (to_check c) + length (busy (workers c)) +
        card (contacting a - set (busy (workers c))) + sum_list (map exited (workers c)) =
        unfinished c \<and>
      finite (contacting a) \<and>
      card (contacting a) \<le> sum_list (map held (workers c)))"

text \<open>
  A cycle of node \<open>a/\<close> over the table \<open>a/\<close>, \<open>b/\<close>, \<open>d/\<close> in which
  worker 0 skips itself, contacts \<open>b/\<close> and dies on its answer.
\<close>

definition ex_crash_cycle :: cycle where
  "ex_crash_cycle = cycle_start ''a/'' [''a/'', ''b/'', ''d/'']"

definition ex_crash_events :: "gevent list" where
  "ex_crash_events = [Deq 0 1, Deq 0 1, PostDone 0 2 PostOk, GetDone 0 3 (GetCrash TypeError)]"

text \<open>The same cycle after worker 1 has taken \<open>d/\<close>, whose notify POST fails.\<close>

definition ex_stuck_events :: "gevent list" where
  "ex_stuck_events = ex_crash_events @ [Deq 1 5, PostDone 1 6 PostFailed]"

section \<open>Lemmas\<close>

lemma held_running: "list_all running ws \<Longrightarrow> sum_list (map held ws) = length (busy ws)"
proof (induction ws)
  case (Cons w ws)
  then show ?case by (cases w) (simp_all add: busy_def)
qed (simp add: busy_def)

lemma held_bound: "sum_list (map held ws) \<le> length ws"
proof (induction ws)
  case (Cons w ws)
  have "held w \<le> 1" by (cases w) simp_all
  with Cons.IH show ?case by simp
qed simp

lemma held_busy: "wbusy w = [p] \<Longrightarrow> held w = 1"
  by (cases w) simp_all

lemma exited_busy: "wbusy w = [p] \<Longrightarrow> exited w = 0"
  by (cases w) simp_all

lemma exited_running: "list_all running ws \<Longrightarrow> sum_list (map exited ws) = 0"
proof (induction ws)
  case (Cons w ws)
  then show ?case by (cases w) simp_all
qed simp

text \<open>Replacing a worker by one with the same count of exits.\<close>

lemma exited_update:
  "i < length ws \<Longrightarrow> exited (ws ! i) = exited w \<Longrightarrow>
   sum_list (map exited (ws[i := w])) = sum_list (map exited ws)"
  using sum_list_map_update [of i ws exited w] by simp

lemma cycle_wf_contacting_cong:
  "contacting a' = contacting a \<Longrightarrow> cycle_wf (a', c) = cycle_wf (a, c)"
  by (simp add: cycle_wf_def)

lemma cycle_inv_wf: "cycle_inv s \<Longrightarrow> cycle_wf s"
proof -
  assume inv: "cycle_inv s"
  obtain a c where s: "s = (a, c)" by fastforce
  from inv have "distinct (busy (workers c))" "contacting a = set (busy (workers c))"
    and run: "list_all running (workers c)" by (simp_all add: cycle_inv_def s)
  then have "card (contacting a) = sum_list (map held (workers c))"
    by (simp add: distinct_card held_running)
  with inv exited_running [OF run] show ?thesis by (auto simp: cycle_inv_def cycle_wf_def s)
qed

lemma cycle_wf_joined:
  "cycle_wf (a, c) \<Longrightarrow> unfinished c = 0 \<Longrightarrow> contacting a = {} \<and> to_check c = []"
  by (auto simp: cycle_wf_def)

lemma cycle_wf_queue:
  assumes "cycle_wf (a, c)"
  shows "set (queued (to_check c)) \<subseteq> to_check_set c"
    "length (to_check c) \<le> unfinished c" "set (queued (to_check c)) \<inter> contacting a = {}"
  using assms by (auto simp: cycle_wf_def)

lemma finish_contact_wf:
  assumes wf: "cycle_wf (a, c)" and i: "i < length (workers c)"
    and w: "wbusy (workers c ! i) = [p]"
  shows "cycle_wf (finish_contact i P p L (a, c))"
proof -
  define N where "N = new_peers (to_check_set c \<union> contacting a \<union> attempted c) L"
  define ws' where "ws' = (workers c)[i := Waiting (P \<union> set L)]"
  let ?Q = "queued (to_check c)" and ?B = "busy (workers c)"
  have p: "p \<in> set ?B" using i w by (rule busy_nth)
  let ?X = "sum_list (map exited (workers c))"
  from wf have dQB: "distinct (?Q @ ?B)"
    and tcs: "set ?Q \<union> set ?B \<subseteq> to_check_set c" and ct: "set ?B \<subseteq> contacting a"
    and qc: "set ?Q \<inter> contacting a = {}" and att: "contacting a \<inter> attempted c = {}"
    and unf: "length (to_check c) + length ?B + card (contacting a - set ?B) + ?X = unfinished c"
    and fin: "finite (contacting a)" and card: "card (contacting a) \<le> sum_list (map held (workers c))"
    by (simp_all add: cycle_wf_def)
  have pc: "p \<in> contacting a" and pt: "p \<in> to_check_set c" using p ct tcs by auto
  have len: "0 < length ?B" using p by (cases ?B) auto
  have pos: "0 < unfinished c" using unf len by linarith
  have B': "set (busy ws') = set ?B - {p}" "length (busy ws') = length ?B - 1"
    "distinct (busy ws')"
    using busy_update_idle [OF i w _, of "Waiting (P \<union> set L)"] dQB by (simp_all add: ws'_def)
  have H: "sum_list (map held ws') + 1 = sum_list (map held (workers c))"
    using sum_list_map_update [OF i, of held "Waiting (P \<union> set L)"] held_busy [OF w]
    by (simp add: ws'_def)
  have X: "sum_list (map exited ws') = ?X"
    using exited_update [OF i] exited_busy [OF w] by (simp add: ws'_def)
  have cd: "card (contacting a - {p}) + 1 = card (contacting a)"
  proof -
    have "0 < card (contacting a)" using fin pc by (auto simp: card_gt_0_iff)
    then show ?thesis using fin pc by (simp add: card_Diff_singleton)
  qed
  have N: "set N \<inter> (to_check_set c \<union> contacting a \<union> attempted c) = {}" "distinct N"
    by (auto simp: N_def)
  have pQ: "p \<notin> set ?Q" using dQB p by auto
  have lo: "contacting a - {p} - set (busy ws') = contacting a - set ?B" unfolding B'(1) using p by blast
  have ar: "length (to_check c) + length N + (length ?B - Suc 0) + card (contacting a - set ?B) + ?X
      = unfinished c + length N - Suc 0"
    using unf len by linarith
  have eq: "finish_contact i P p L (a, c) =
     (a\<lparr>contacting := contacting a - {p}\<rparr>,
      c\<lparr>to_check := to_check c @ map queue_item N, unfinished := unfinished c + length N - 1,
          to_check_set := (to_check_set c \<union> set N) - {p}, attempted := insert p (attempted c),
          results := results c @ [N \<noteq> []], workers := ws'\<rparr>)"
    using finish_contact_eq [OF pc pt pos, of i P L] by (simp add: N_def ws'_def Let_def)
  show ?thesis
    unfolding eq cycle_wf_def using dQB tcs ct qc att ar fin card B' H X cd N pQ lo
    by auto
qed

lemma worker_dequeue_wf:
  assumes wf: "cycle_wf (a, c)" and step: "worker_dequeue i t (a, c) = Some s'"
  shows "cycle_wf s'"
  using cycle_wf_queue [OF wf] step
proof (cases rule: worker_dequeue_cases)
  case (1 P p rest)
  then show ?thesis using wf by (auto simp: cycle_wf_def)
next
  case (2 P p rest)
  let ?ws = "(workers c)[i := Posting P p]"
  have B': "set (busy ?ws) = insert p (set (busy (workers c)))"
    "length (busy ?ws) = Suc (length (busy (workers c)))"
    "distinct (busy ?ws) \<longleftrightarrow> distinct (busy (workers c)) \<and> p \<notin> set (busy (workers c))"
    using busy_update_busy [OF 2(1), of "Posting P p" p] 2(2) by simp_all
  have H: "sum_list (map held ?ws) = Suc (sum_list (map held (workers c)))"
    using sum_list_map_update [OF 2(1), of held "Posting P p"] 2(2) by simp
  have X: "sum_list (map exited ?ws) = sum_list (map exited (workers c))"
    using exited_update [OF 2(1)] 2(2) by simp
  have fin: "finite (contacting a)" using wf by (simp add: cycle_wf_def)
  show ?thesis using wf 2 B' H X fin by (auto simp: cycle_wf_def)
next
  case (3 P rest)
  let ?ws = "(workers c)[i := Exited]"
  have m: "mset (busy ?ws) = mset (busy (workers c))"
    using busy_update_same [OF 3(1)] 3(2) by simp
  have H: "sum_list (map held ?ws) = sum_list (map held (workers c))"
    using sum_list_map_update [OF 3(1), of held Exited] 3(2) by simp
  have X: "sum_list (map exited ?ws) = Suc (sum_list (map exited (workers c)))"
    using sum_list_map_update [OF 3(1), of exited Exited] 3(2) by simp
  show ?thesis
    using wf 3 H X mset_eq_setD [OF m] mset_eq_length [OF m] mset_eq_imp_distinct_iff [OF m]
    by (auto simp: cycle_wf_def)
qed

lemma post_done_wf:
  assumes wf: "cycle_wf (a, c)" and step: "post_done i t r (a, c) = Some s'"
  shows "cycle_wf s'"
proof -
  obtain P p where i: "i < length (workers c)" and w: "workers c ! i = Posting P p"
    using step by (auto simp: post_done_def split: if_splits worker.splits)
  show ?thesis
  proof (cases r)
    case PostOk
    let ?ws = "(workers c)[i := Getting P p]"
    have m: "mset (busy ?ws) = mset (busy (workers c))"
      using busy_update_same [OF i] w by simp
    have H: "sum_list (map held ?ws) = sum_list (map held (workers c))"
      using sum_list_map_update [OF i, of held "Getting P p"] w by simp
    have X: "sum_list (map exited ?ws) = sum_list (map exited (workers c))"
      using exited_update [OF i] w by simp
    have "cycle_wf (a, c\<lparr>workers := ?ws\<rparr>)"
      using wf H X mset_eq_setD [OF m] mset_eq_length [OF m] mset_eq_imp_distinct_iff [OF m]
      by (auto simp: cycle_wf_def)
    then show ?thesis using step PostOk i w by (simp add: post_done_def)
  next
    case PostFailed
    let ?a = "a\<lparr>last_errored := mark_errored (last_errored a) p t\<rparr>"
    have "cycle_wf (?a, c)" using wf cycle_wf_contacting_cong [of ?a a c] by simp
    then have "cycle_wf (finish_contact i P p [] (?a, c))"
      using i w by (intro finish_contact_wf) simp_all
    then show ?thesis using step PostFailed i w by (simp add: post_done_def)
  qed
qed

text \<open>A worker that dies in \<open>peers.union\<close> keeps its entry in \<open>contacting\<close>.\<close>

lemma crash_wf:
  assumes wf: "cycle_wf (a, c)" and i: "i < length (workers c)" and w: "wbusy (workers c ! i) = [p]"
    and ct: "contacting a' = contacting a"
  shows "cycle_wf (a', c\<lparr>workers := (workers c)[i := Crashed e]\<rparr>)"
proof -
  let ?ws = "(workers c)[i := Crashed e]"
  have B': "set (busy ?ws) = set (busy (workers c)) - {p}"
    "length (busy ?ws) = length (busy (workers c)) - 1" "distinct (busy ?ws)"
    using busy_update_idle [OF i w, of "Crashed e"] wf by (simp_all add: cycle_wf_def)
  have H: "sum_list (map held ?ws) = sum_list (map held (workers c))"
    using sum_list_map_update [OF i, of held "Crashed e"] held_busy [OF w] by simp
  have X: "sum_list (map exited ?ws) = sum_list (map exited (workers c))"
    using exited_update [OF i] exited_busy [OF w] by simp
  have p: "p \<in> set (busy (workers c))" using i w by (rule busy_nth)
  then have pc: "p \<in> contacting a" using wf by (auto simp: cycle_wf_def)
  have fin: "finite (contacting a)" using wf by (simp add: cycle_wf_def)
  have lo: "contacting a - set (busy ?ws) = insert p (contacting a - set (busy (workers c)))"
    unfolding B'(1) using p pc by blast
  have clo: "card (contacting a - set (busy ?ws)) = Suc (card (contacting a - set (busy (workers c))))"
    unfolding lo using fin p by simp
  have len: "0 < length (busy (workers c))" using p by (cases "busy (workers c)") auto
  have "length (to_check c) + length (busy (workers c)) + card (contacting a - set (busy (workers c)))
          + sum_list (map exited (workers c)) = unfinished c" using wf by (simp add: cycle_wf_def)
  then have unf: "length (to_check c) + length (busy ?ws) + card (contacting a - set (busy ?ws))
          + sum_list (map exited ?ws) = unfinished c" using B'(2) clo len X by linarith
  show ?thesis using wf ct B' H unf by (auto simp: cycle_wf_def)
qed

lemma get_done_wf:
  assumes wf: "cycle_wf (a, c)" and step: "get_done i t r (a, c) = Some s'"
  shows "cycle_wf s'"
proof -
  obtain P p where i: "i < length (workers c)" and w: "workers c ! i = Getting P p"
    using step by (auto simp: get_done_def split: if_splits worker.splits)
  have fin: "cycle_wf (finish_contact i P p L (a', c))"
    if "contacting a' = contacting a" for a' L
  proof -
    have "cycle_wf (a', c)" using wf that cycle_wf_contacting_cong [of a' a c] by simp
    then show ?thesis using i w by (intro finish_contact_wf) simp_all
  qed
  have cr: "cycle_wf (a\<lparr>connected_to_peer_network := True\<rparr>, c\<lparr>workers := (workers c)[i := Crashed e]\<rparr>)"
    for e using crash_wf [OF wf i, of p] w by simp
  show ?thesis
    using step i w fin cr by (cases r) (auto simp: get_done_def)
qed

lemma gstep_wf: "cycle_wf s \<Longrightarrow> gstep s e = Some s' \<Longrightarrow> cycle_wf s'"
  by (cases s; cases e) (auto intro: worker_dequeue_wf post_done_wf get_done_wf)

lemma grun_wf: "cycle_wf s \<Longrightarrow> grun s es = Some s' \<Longrightarrow> cycle_wf s'"
proof (induction es arbitrary: s)
  case (Cons e es)
  then show ?case by (auto split: option.splits dest: gstep_wf)
qed simp

lemma length_busy_le: "length (busy ws) \<le> length ws"
proof (induction ws)
  case (Cons w ws)
  then show ?case by (cases w) (simp_all add: busy_def)
qed (simp add: busy_def)

lemma take_item_length:
  "take_item i now P item (a, c) = (a', c') \<Longrightarrow> length (workers c') = length (workers c)"
  by (cases item) (auto simp: skip_item_def split: if_splits sum.splits)

lemma gstep_length_workers:
  "gstep (a, c) e = Some (a', c') \<Longrightarrow> length (workers c') = length (workers c)"
  by (cases e)
     (auto dest: take_item_length simp: worker_dequeue_def post_done_def get_done_def finish_contact_def skip_item_def
        enqueue_new_eq Let_def split: if_splits worker.splits list.splits option.splits
        sum.splits post_outcome.splits get_outcome.splits prod.splits)

lemma grun_length_workers:
  "grun (a, c) es = Some (a', c') \<Longrightarrow> length (workers c') = length (workers c)"
proof (induction es arbitrary: a c)
  case (Cons e es)
  then obtain a1 c1 where st: "gstep (a, c) e = Some (a1, c1)" and run: "grun (a1, c1) es = Some (a', c')"
    by (auto split: option.splits)
  from gstep_length_workers [OF st] Cons.IH [OF run] show ?case by simp
qed simp

lemma wphase_bound: "sum_list (map wphase ws) \<le> 3 * length ws"
proof (induction ws)
  case (Cons w ws)
  have "wphase w \<le> 3" by (cases w) auto
  with Cons.IH show ?case by simp
qed simp

lemma queue_bound:
  assumes wf: "cycle_wf (a, c)" and fin: "finite U" and sub: "to_check_set c \<subseteq> U"
  shows "length (queued (to_check c)) \<le> card U"
proof -
  from wf have "distinct (queued (to_check c))" "set (queued (to_check c)) \<subseteq> to_check_set c"
    by (auto simp: cycle_wf_def)
  then show ?thesis
    using sub fin by (metis card_mono distinct_card order_trans)
qed

text \<open>
  The measure after a step, given that the step keeps the workers, keeps the
  peers inside \<open>U\<close>, and either adds a peer of \<open>U\<close> to
  \<open>attempted_contact\<close> or lowers the queue and phase part.
\<close>

lemma gmeasure_attempt:
  assumes fin: "finite U" and pU: "p \<in> U - attempted c"
    and att: "attempted c' = insert p (attempted c)"
    and len: "length (workers c') = length (workers c)"
    and q: "length (queued (to_check c')) \<le> card U"
  shows "gmeasure U c' < gmeasure U c"
proof -
  have pos: "0 < card (U - attempted c)" using pU fin by (auto simp: card_gt_0_iff)
  define k where "k = card (U - attempted c) - 1"
  have k: "card (U - attempted c) = Suc k" using pos by (simp add: k_def)
  have "U - attempted c' = U - attempted c - {p}" using att by auto
  then have k': "card (U - attempted c') = k" using k pU fin by (simp add: card_Diff_singleton)
  have ph: "sum_list (map wphase (workers c')) \<le> 3 * length (workers c)"
    using wphase_bound [of "workers c'"] len by simp
  define C where "C = 3 * card U + 3 * length (workers c) + 1"
  have "gmeasure U c' = k * C + 3 * length (queued (to_check c')) + sum_list (map wphase (workers c'))"
    using k' len by (simp add: gmeasure_def C_def)
  also have "\<dots> < k * C + C" using q ph by (simp add: C_def)
  also have "\<dots> \<le> gmeasure U c" using k by (simp add: gmeasure_def C_def)
  finally show ?thesis .
qed

lemma finish_contact_decreases:
  assumes wf: "cycle_wf (a, c)" and i: "i < length (workers c)"
    and w: "wbusy (workers c ! i) = [p]" and fin: "finite U"
    and sub: "to_check_set c \<subseteq> U" and L: "set L \<subseteq> U"
    and s': "finish_contact i P p L (a, c) = (a', c')"
  shows "gmeasure U c' < gmeasure U c" and "to_check_set c' \<subseteq> U"
    and "length (workers c') = length (workers c)"
proof -
  have p: "p \<in> set (busy (workers c))" using i w by (rule busy_nth)
  with wf have pc: "p \<in> contacting a" and pt: "p \<in> to_check_set c" and pA: "p \<notin> attempted c"
    by (auto simp: cycle_wf_def)
  have "0 < length (busy (workers c))" using p by (cases "busy (workers c)") auto
  moreover have "length (to_check c) + length (busy (workers c)) \<le> unfinished c"
    using wf by (auto simp: cycle_wf_def)
  ultimately have pos: "0 < unfinished c" by linarith
  define N where "N = new_peers (to_check_set c \<union> contacting a \<union> attempted c) L"
  have c': "attempted c' = insert p (attempted c)" "to_check_set c' = (to_check_set c \<union> set N) - {p}"
    "workers c' = (workers c)[i := Waiting (P \<union> set L)]"
  proof -
    have "c' = snd (finish_contact i P p L (a, c))" using s' by simp
    then show "attempted c' = insert p (attempted c)" "to_check_set c' = (to_check_set c \<union> set N) - {p}"
      "workers c' = (workers c)[i := Waiting (P \<union> set L)]"
      by (simp_all add: finish_contact_eq [OF pc pt pos] N_def Let_def)
  qed
  show sub': "to_check_set c' \<subseteq> U" using c' sub L by (auto simp: N_def)
  show len: "length (workers c') = length (workers c)" using c' by simp
  have wf': "cycle_wf (a', c')" using finish_contact_wf [OF wf i w, of P L] s' by simp
  show "gmeasure U c' < gmeasure U c"
    using gmeasure_attempt [OF fin _ c'(1) len queue_bound [OF wf' fin sub']] pA pt sub by auto
qed

lemma gstep_decreases:
  assumes wf: "cycle_wf (a, c)" and fin: "finite U" and sub: "to_check_set c \<subseteq> U"
    and e: "set (event_peers e) \<subseteq> U" and step: "gstep (a, c) e = Some (a', c')"
  shows "gmeasure U c' < gmeasure U c \<and> to_check_set c' \<subseteq> U \<and>
         length (workers c') = length (workers c)"
proof (cases e)
  case (Deq i t)
  with step have dq: "worker_dequeue i t (a, c) = Some (a', c')" by simp
  show ?thesis using cycle_wf_queue [OF wf] dq
  proof (cases rule: worker_dequeue_cases)
    case (1 P p rest)
    then show ?thesis using sub by (auto simp: gmeasure_def)
  next
    case (2 P p rest)
    have "sum_list (map wphase ((workers c)[i := Posting P p])) + 1 =
          sum_list (map wphase (workers c)) + 3"
      using sum_list_map_update [OF 2(1), of wphase "Posting P p"] 2(2) by simp
    then show ?thesis using 2 sub by (auto simp: gmeasure_def)
  next
    case (3 P rest)
    have "sum_list (map wphase ((workers c)[i := Exited])) + 1 = sum_list (map wphase (workers c))"
      using sum_list_map_update [OF 3(1), of wphase Exited] 3(2) by simp
    then show ?thesis using 3 sub by (auto simp: gmeasure_def)
  qed
next
  case (PostDone i t r)
  with step obtain P p where i: "i < length (workers c)" and w: "workers c ! i = Posting P p"
    by (auto simp: post_done_def split: if_splits worker.splits)
  show ?thesis
  proof (cases r)
    case PostOk
    have "sum_list (map wphase ((workers c)[i := Getting P p])) + 3 =
          sum_list (map wphase (workers c)) + 2"
      using sum_list_map_update [OF i, of wphase "Getting P p"] w by simp
    then show ?thesis using step PostDone PostOk i w sub by (auto simp: post_done_def gmeasure_def)
  next
    case PostFailed
    let ?a = "a\<lparr>last_errored := mark_errored (last_errored a) p t\<rparr>"
    have wf': "cycle_wf (?a, c)" using wf cycle_wf_contacting_cong [of ?a a c] by simp
    have fc: "finish_contact i P p [] (?a, c) = (a', c')"
      using step PostDone PostFailed i w by (simp add: post_done_def)
    show ?thesis using finish_contact_decreases [OF wf' i _ fin sub _ fc] w by simp
  qed
next
  case (GetDone i t r)
  with step obtain P p where i: "i < length (workers c)" and w: "workers c ! i = Getting P p"
    by (auto simp: get_done_def split: if_splits worker.splits)
  have wb: "wbusy (workers c ! i) = [p]" using w by simp
  have fc: "gmeasure U c' < gmeasure U c \<and> to_check_set c' \<subseteq> U \<and>
            length (workers c') = length (workers c)"
    if "contacting a0 = contacting a" "set L \<subseteq> U" "finish_contact i P p L (a0, c) = (a', c')" for a0 L
  proof -
    have "cycle_wf (a0, c)" using wf that(1) cycle_wf_contacting_cong [of a0 a c] by simp
    then show ?thesis using finish_contact_decreases [OF _ i wb fin sub that(2,3)] by simp
  qed
  show ?thesis
  proof (cases r)
    case (GetCrash x)
    have "sum_list (map wphase ((workers c)[i := Crashed x])) + 2 = sum_list (map wphase (workers c))"
      using sum_list_map_update [OF i, of wphase "Crashed x"] w by simp
    then show ?thesis using step GetDone GetCrash i w sub by (auto simp: get_done_def gmeasure_def)
  next
    case (GetPeers L)
    then show ?thesis using fc [of "a\<lparr>connected_to_peer_network := True\<rparr>" L] step GetDone i w e
      by (simp add: get_done_def)
  next
    case GetBadBody
    then show ?thesis
      using fc [of "a\<lparr>connected_to_peer_network := True,
                     last_errored := mark_errored (last_errored a) p t\<rparr>" "[]"] step GetDone i w
      by (simp add: get_done_def)
  next
    case GetFailed
    then show ?thesis
      using fc [of "a\<lparr>last_errored := mark_errored (last_errored a) p t\<rparr>" "[]"] step GetDone i w
      by (simp add: get_done_def)
  qed
qed

text \<open>
  C2. Termination whatever the peers answer: when every URL the network reports comes from a finite set U, every interleaving of the cycle, including those where workers die in peers.union, has at most gmeasure U events.
\<close>

theorem grun_length_bound:
  "cycle_wf s \<Longrightarrow> finite U \<Longrightarrow> to_check_set (snd s) \<subseteq> U \<Longrightarrow>
   list_all (\<lambda>e. set (event_peers e) \<subseteq> U) es \<Longrightarrow> grun s es = Some s' \<Longrightarrow>
   length es \<le> gmeasure U (snd s)"
proof (induction es arbitrary: s)
  case Nil
  then show ?case by simp
next
  case (Cons e es)
  obtain a c where s: "s = (a, c)" by fastforce
  from Cons.prems(5) obtain s1 where st: "gstep s e = Some s1" and run: "grun s1 es = Some s'"
    by (auto split: option.splits)
  obtain a1 c1 where s1: "s1 = (a1, c1)" by fastforce
  have dec: "gmeasure U (snd s1) < gmeasure U (snd s)" and sub1: "to_check_set (snd s1) \<subseteq> U"
    using gstep_decreases [of a c U e a1 c1] Cons.prems st by (simp_all add: s s1)
  have "length es \<le> gmeasure U (snd s1)"
    using Cons.IH [OF gstep_wf [OF Cons.prems(1) st]] Cons.prems(2,4) sub1 run by simp
  with dec show ?case by simp
qed

lemma finish_contact_attempted:
  "finish_contact i P p L (a, c) = (a', c') \<Longrightarrow> attempted c' = insert p (attempted c)"
  by (auto simp: finish_contact_def enqueue_new_eq Let_def split: sum.splits)

lemma gstep_attempted_mono:
  "gstep (a, c) e = Some (a', c') \<Longrightarrow> attempted c \<subseteq> attempted c'"
proof (cases e)
  case (Deq i t)
  moreover have "attempted (snd (take_item i t P item (a0, c0))) = attempted c0" for P item a0 c0
    by (cases item) (auto simp: skip_item_def split: sum.splits)
  ultimately show "gstep (a, c) e = Some (a', c') \<Longrightarrow> ?thesis"
    by (auto simp: worker_dequeue_def split: if_splits worker.splits list.splits
             dest: arg_cong [of _ _ "attempted \<circ> snd"])
next
  case (PostDone i t r)
  then show "gstep (a, c) e = Some (a', c') \<Longrightarrow> ?thesis"
    by (auto simp: post_done_def split: if_splits worker.splits post_outcome.splits
             dest: finish_contact_attempted)
next
  case (GetDone i t r)
  then show "gstep (a, c) e = Some (a', c') \<Longrightarrow> ?thesis"
    by (auto simp: get_done_def split: if_splits worker.splits get_outcome.splits
             dest: finish_contact_attempted)
qed

lemma grun_attempted_mono:
  "grun s es = Some s' \<Longrightarrow> attempted (snd s) \<subseteq> attempted (snd s')"
proof (induction es arbitrary: s)
  case (Cons e es)
  then obtain s1 where st: "gstep s e = Some s1" and run: "grun s1 es = Some s'"
    by (auto split: option.splits)
  have "attempted (snd s) \<subseteq> attempted (snd s1)"
    using gstep_attempted_mono [of "fst s" "snd s" e "fst s1" "snd s1"] st by simp
  with Cons.IH [OF run] show ?case by blast
qed simp

lemma cycle_start_wf:
  "distinct d \<Longrightarrow> contacting a = {} \<Longrightarrow> cycle_wf (a, cycle_start u d)"
  by (rule cycle_inv_wf [OF cycle_start_inv])

text \<open>
  C4. The "Avoiding race" branch of peer_worker is dead code within a cycle, whatever the peers answer: after any interleaving of the workers, workers dead in peers.union included, the peer at the head of the queue is not in contacting, so no item is ever dropped without task_done.
\<close>

theorem dequeued_not_contacting:
  "cycle_wf s \<Longrightarrow> grun s es = Some (a', c') \<Longrightarrow> to_check c' = Some p # rest \<Longrightarrow> p \<notin> contacting a'"
proof -
  assume wf: "cycle_wf s" and run: "grun s es = Some (a', c')" and q: "to_check c' = Some p # rest"
  have "cycle_wf (a', c')" using grun_wf [OF wf run] .
  then show ?thesis using q by (auto simp: cycle_wf_def)
qed

text \<open>
  C5. A peer once attempted in a cycle (contacted, failed or the node itself) is never contacted again in that cycle, whatever the peers answer: it stays in attempted_contact and out of contacting.
\<close>

theorem attempted_never_recontacted:
  "cycle_wf s \<Longrightarrow> p \<in> attempted (snd s) \<Longrightarrow> grun s es = Some s' \<Longrightarrow>
   p \<in> attempted (snd s') \<and> p \<notin> contacting (fst s')"
proof -
  assume wf: "cycle_wf s" and p: "p \<in> attempted (snd s)" and run: "grun s es = Some s'"
  have pa: "p \<in> attempted (snd s')" using grun_attempted_mono [OF run] p by blast
  have "cycle_wf s'" using grun_wf [OF wf run] .
  then have "contacting (fst s') \<inter> attempted (snd s') = {}" by (auto simp: cycle_wf_def)
  with pa show ?thesis by blast
qed

text \<open>
  C12. Bounded concurrency whatever the peers answer: in every interleaving of a cycle started from a duplicate-free table with nobody being contacted, Application.contacting holds at most WORKERS peers, counting those left behind by workers that died in peers.union.
\<close>

theorem contacting_bound:
  "distinct d \<Longrightarrow> contacting a = {} \<Longrightarrow>
   grun (a, cycle_start u d) es = Some (a', c') \<Longrightarrow> card (contacting a') \<le> WORKERS"
proof -
  assume d: "distinct d" and ct: "contacting a = {}"
    and run: "grun (a, cycle_start u d) es = Some (a', c')"
  have "cycle_wf (a', c')" using grun_wf [OF cycle_start_wf [OF d ct] run] .
  then have "card (contacting a') \<le> sum_list (map held (workers c'))" by (simp add: cycle_wf_def)
  also have "\<dots> \<le> length (workers c')" by (rule held_bound)
  also have "\<dots> = WORKERS"
    using grun_length_workers [OF run] by (simp add: cycle_start_def)
  finally show ?thesis .
qed

lemma ex_crash_run:
  "grun (ex_app, ex_crash_cycle) ex_crash_events =
     Some (ex_app\<lparr>contacting := {KStr ''b/''}, connected_to_peer_network := True\<rparr>,
           ex_crash_cycle\<lparr>to_check := [Some (KStr ''d/'')], unfinished := 2,
             to_check_set := {KStr ''b/'', KStr ''d/''},
             workers := Crashed TypeError # replicate 9 (Waiting {KStr ''a/'', KStr ''b/'', KStr ''d/''})\<rparr>)"
  by (simp add: ex_simps ex_crash_cycle_def ex_crash_events_def numeral_eq_Suc insert_Diff_if
      insert_commute)

lemma ex_crash_wf: "cycle_wf (ex_app, ex_crash_cycle)"
  unfolding ex_crash_cycle_def by (rule cycle_start_wf) (simp_all add: ex_crash_cycle_def ex_app_def app_init_def)

theorem grun_length_bound_witness:
  "cycle_wf (ex_app, ex_crash_cycle) \<and> (\<exists>s'. grun (ex_app, ex_crash_cycle) ex_crash_events = Some s') \<and>
   length ex_crash_events \<le> gmeasure {KStr ''a/'', KStr ''b/'', KStr ''d/''} ex_crash_cycle"
proof -
  have h: "finite {KStr ''a/'', KStr ''b/'', KStr ''d/''}"
    "to_check_set (snd (ex_app, ex_crash_cycle)) \<subseteq> {KStr ''a/'', KStr ''b/'', KStr ''d/''}"
    "list_all (\<lambda>e. set (event_peers e) \<subseteq> {KStr ''a/'', KStr ''b/'', KStr ''d/''}) ex_crash_events"
    by (simp_all add: ex_crash_cycle_def cycle_start_def ex_crash_events_def)
  show ?thesis
    using grun_length_bound [OF ex_crash_wf h ex_crash_run] ex_crash_wf ex_crash_run by simp
qed

theorem dequeued_not_contacting_witness:
  "\<exists>a' c'. grun (ex_app, ex_crash_cycle) ex_crash_events = Some (a', c') \<and>
     to_check c' = [Some (KStr ''d/'')] \<and> KStr ''d/'' \<notin> contacting a'"
  using dequeued_not_contacting [OF ex_crash_wf ex_crash_run] ex_crash_run by simp

theorem attempted_never_recontacted_witness:
  "\<exists>s'. grun (ex_app, ex_crash_cycle) ex_crash_events = Some s' \<and>
        KStr ''a/'' \<in> attempted (snd s') \<and> KStr ''a/'' \<notin> contacting (fst s')"
proof -
  have "KStr ''a/'' \<in> attempted (snd (ex_app, ex_crash_cycle))"
    by (simp add: ex_crash_cycle_def cycle_start_def)
  then show ?thesis
    using attempted_never_recontacted [OF ex_crash_wf _ ex_crash_run] ex_crash_run by blast
qed

theorem contacting_bound_witness:
  "distinct [''a/'', ''b/'', ''d/''] \<and> contacting ex_app = {} \<and>
   (\<exists>a' c'. grun (ex_app, cycle_start ''a/'' [''a/'', ''b/'', ''d/'']) ex_crash_events = Some (a', c') \<and>
      card (contacting a') \<le> WORKERS)"
proof -
  have h: "distinct [''a/'', ''b/'', ''d/'']" "contacting ex_app = {}"
    by (simp_all add: ex_app_def app_init_def)
  have r: "grun (ex_app, cycle_start ''a/'' [''a/'', ''b/'', ''d/'']) ex_crash_events =
     Some (ex_app\<lparr>contacting := {KStr ''b/''}, connected_to_peer_network := True\<rparr>,
           ex_crash_cycle\<lparr>to_check := [Some (KStr ''d/'')], unfinished := 2,
             to_check_set := {KStr ''b/'', KStr ''d/''},
             workers := Crashed TypeError # replicate 9 (Waiting {KStr ''a/'', KStr ''b/'', KStr ''d/''})\<rparr>)"
    using ex_crash_run by (simp add: ex_crash_cycle_def)
  show ?thesis using contacting_bound [OF h r] h r by blast
qed

lemma gstep_progress_wf:
  assumes stuck: "\<forall>e. gstep (a, c) e = None"
  shows "busy (workers c) = [] \<and> (to_check c = [] \<or> list_all (\<lambda>w. \<not> running w) (workers c))"
proof -
  have nb: "busy (workers c) = []"
  proof (rule ccontr)
    assume "busy (workers c) \<noteq> []"
    then obtain p ps where "busy (workers c) = p # ps" by (cases "busy (workers c)") auto
    then obtain i where i: "i < length (workers c)" and w: "wbusy (workers c ! i) = [p]"
      using busy_member [of p "workers c"] by auto
    from wbusy_cases [OF w] i stuck show False
      by (auto simp: post_done_def get_done_def dest: spec [of _ "PostDone i 0 PostOk"]
                                                      spec [of _ "GetDone i 0 GetFailed"])
  qed
  have "list_all (\<lambda>w. \<not> running w) (workers c)" if q: "to_check c \<noteq> []"
  proof -
    have "\<not> running (workers c ! i)" if i: "i < length (workers c)" for i
    proof
      assume "running (workers c ! i)"
      then obtain P where "workers c ! i = Waiting P"
        using idle_running busy_Nil_nth [OF nb i] by blast
      then show False using i q stuck spec [OF stuck, of "Deq i 0"]
        by (auto simp: worker_dequeue_def split: list.splits)
    qed
    then show ?thesis by (simp add: list_all_length)
  qed
  with nb show ?thesis by blast
qed

text \<open>
  C3. What a stuck cycle waits for, whatever the peers answered: in every interleaving of a cycle started from a duplicate-free table with nobody being contacted, a state where no worker event is enabled has no peer being contacted by a live worker, its queue is empty unless every worker has died, and join() waits for exactly the queued items, plus the peers dead workers left in contacting, plus one task for each worker that returned on a null a peer reported. Without a crash (all workers running, contacting empty) this is the no-deadlock property: the queue is empty, unfinished is 0 and peers_to_check.join() returns.
\<close>

theorem cycle_stuck_state:
  "distinct d \<Longrightarrow> contacting a0 = {} \<Longrightarrow> grun (a0, cycle_start u d) es = Some s \<Longrightarrow>
   (\<forall>e. gstep s e = None) \<Longrightarrow>
   busy (workers (snd s)) = [] \<and> (to_check (snd s) = [] \<or> list_all (\<lambda>w. \<not> running w) (workers (snd s))) \<and>
   unfinished (snd s) = length (to_check (snd s)) + card (contacting (fst s)) +
     sum_list (map exited (workers (snd s)))"
proof -
  assume d: "distinct d" and ct: "contacting a0 = {}" and run: "grun (a0, cycle_start u d) es = Some s"
    and stuck: "\<forall>e. gstep s e = None"
  have wf: "cycle_wf s" using grun_wf [OF cycle_start_wf [OF d ct] run] .
  obtain a c where s: "s = (a, c)" by fastforce
  have p: "busy (workers c) = [] \<and> (to_check c = [] \<or> list_all (\<lambda>w. \<not> running w) (workers c))"
    using gstep_progress_wf [of a c] stuck by (simp add: s)
  moreover have "unfinished c = length (to_check c) + card (contacting a) + sum_list (map exited (workers c))"
    using wf p by (simp add: cycle_wf_def s)
  ultimately show ?thesis by (simp add: s)
qed

lemma ex_stuck_run:
  "grun (ex_app, ex_crash_cycle) ex_stuck_events =
     Some (ex_app\<lparr>contacting := {KStr ''b/''}, connected_to_peer_network := True, last_errored := [KStr ''d/'' \<mapsto> 6]\<rparr>,
           ex_crash_cycle\<lparr>to_check := [], unfinished := 1, to_check_set := {KStr ''b/''},
             attempted := {KStr ''a/'', KStr ''d/''}, results := [False],
             workers := Crashed TypeError # Waiting {KStr ''a/'', KStr ''b/'', KStr ''d/''} #
                        replicate 8 (Waiting {KStr ''a/'', KStr ''b/'', KStr ''d/''})\<rparr>)"
  by (simp add: ex_simps ex_crash_cycle_def ex_stuck_events_def ex_crash_events_def numeral_eq_Suc
      insert_Diff_if insert_commute)

theorem cycle_stuck_state_witness:
  "distinct [''a/'', ''b/'', ''d/''] \<and> contacting ex_app = {} \<and>
   (\<exists>s. grun (ex_app, cycle_start ''a/'' [''a/'', ''b/'', ''d/'']) ex_stuck_events = Some s \<and>
       (\<forall>e. gstep s e = None) \<and> to_check (snd s) = [] \<and> unfinished (snd s) = 1 \<and>
       contacting (fst s) = {KStr ''b/''})"
proof -
  define sF where "sF = (ex_app\<lparr>contacting := {KStr ''b/''}, connected_to_peer_network := True,
                                 last_errored := [KStr ''d/'' \<mapsto> 6]\<rparr>,
           ex_crash_cycle\<lparr>to_check := [], unfinished := 1, to_check_set := {KStr ''b/''},
             attempted := {KStr ''a/'', KStr ''d/''}, results := [False],
             workers := Crashed TypeError # Waiting {KStr ''a/'', KStr ''b/'', KStr ''d/''} #
                        replicate 8 (Waiting {KStr ''a/'', KStr ''b/'', KStr ''d/''})\<rparr>)"
  have run: "grun (ex_app, ex_crash_cycle) ex_stuck_events = Some sF" using ex_stuck_run by (simp add: sF_def)
  have h: "distinct [''a/'', ''b/'', ''d/'']" "contacting ex_app = {}"
    by (simp_all add: ex_app_def app_init_def)
  have run': "grun (ex_app, cycle_start ''a/'' [''a/'', ''b/'', ''d/'']) ex_stuck_events = Some sF"
    using run by (simp add: ex_crash_cycle_def)
  have ws: "workers (snd sF) ! i = Crashed TypeError \<or> (\<exists>P. workers (snd sF) ! i = Waiting P)"
    if "i < length (workers (snd sF))" for i
  proof -
    have "\<forall>w \<in> set (workers (snd sF)). w = Crashed TypeError \<or> (\<exists>P. w = Waiting P)"
      by (simp add: sF_def)
    then show ?thesis using nth_mem [OF that] by blast
  qed
  have q: "to_check (snd sF) = []" by (simp add: sF_def)
  have stuck: "\<forall>e. gstep sF e = None"
  proof
    fix e show "gstep sF e = None"
    proof (cases e)
      case (Deq i t)
      then show ?thesis using ws [of i] q
        by (cases sF) (auto simp: worker_dequeue_def split: worker.splits list.splits)
    next
      case (PostDone i t r)
      then show ?thesis using ws [of i] by (cases sF) (auto simp: post_done_def)
    next
      case (GetDone i t r)
      then show ?thesis using ws [of i] by (cases sF) (auto simp: get_done_def)
    qed
  qed
  show ?thesis using cycle_stuck_state [OF h run' stuck] h run' stuck by (simp add: sF_def)
qed

end
