(* ===== verification/Config.thy ===== *)
theory Config
  imports Handlers
begin

text \<open>
  Configuration and wiring: the module constants of
  \<open>src/chord_federation/app.py\<close> (lines 17--26, 358--377), the constants
  module \<open>src/chord_federation_service/constants.py\<close> (its export list, lines 7--33,
  and its bindings, lines 36--58) and the
  application wiring of \<open>src/bento_federation_service/app.py\<close> (lines
  48--108).  The environment is a map from variable names to values
  (\<open>os.environ\<close>); \<open>urllib.parse.urlparse\<close>, \<open>os.path.join\<close> and
  \<open>str.lower\<close> are modelled from the Python library (POSIX paths, ASCII case
  mapping, Python 3.9 and later for \<open>urlsplit\<close>).
\<close>

type_synonym environ = "string \<Rightarrow> string option"

section \<open>Library functions\<close>

text \<open>\<open>str.lower()\<close> on ASCII letters.\<close>

definition py_lower :: "string \<Rightarrow> string" where
  "py_lower s = map (\<lambda>c. let n = (of_char c :: nat) in if 65 \<le> n \<and> n \<le> 90 then char_of (n + 32) else c) s"

text \<open>\<open>os.path.join(a, b)\<close> for POSIX paths.\<close>

definition py_path_join :: "string \<Rightarrow> string \<Rightarrow> string" where
  "py_path_join a b =
     (if take 1 b = ''/'' then b
      else if a = [] \<or> last a = CHR ''/'' then a @ b
      else a @ ''/'' @ b)"

text \<open>
  The network location \<open>urllib.parse.urlsplit(u).netloc\<close>: leading control
  characters and spaces are stripped and tabs and line breaks removed; a
  scheme is split off at the first colon when it starts with a letter and
  consists of letters, digits, \<open>+\<close>, \<open>-\<close> and \<open>.\<close>; after \<open>//\<close> the
  location runs to the first \<open>/\<close>, \<open>?\<close> or \<open>#\<close>, and a location with an
  unmatched bracket raises \<open>ValueError\<close>.
\<close>

definition scheme_char :: "char \<Rightarrow> bool" where
  "scheme_char c \<longleftrightarrow> c \<in> set ''abcdefghijklmnopqrstuvwxyzABCDEFGHIJKLMNOPQRSTUVWXYZ0123456789+-.''"

definition url_netloc :: "string \<Rightarrow> py_error + string" where
  "url_netloc u0 =
     (let u1 = filter (\<lambda>c. c \<notin> {CHR 0x09, CHR 0x0A, CHR 0x0D}) (dropWhile (\<lambda>c. of_char c \<le> (32::nat)) u0);
          i = length (takeWhile (\<lambda>c. c \<noteq> CHR '':'') u1);
          u = (if i < length u1 \<and> 0 < i \<and> hd u1 \<in> set ''abcdefghijklmnopqrstuvwxyzABCDEFGHIJKLMNOPQRSTUVWXYZ''
                  \<and> list_all scheme_char (take i u1)
               then drop (Suc i) u1 else u1)
      in if take 2 u = ''//'' then
           (let n = takeWhile (\<lambda>c. c \<notin> set ''/?#'') (drop 2 u) in
            if (CHR ''['' \<in> set n) \<noteq> (CHR '']'' \<in> set n) then Inl ValueError else Inr n)
         else Inr [])"

section \<open>This package's module constants\<close>

text \<open>\<open>app.py\<close> lines 17--26 (\<open>cwd\<close> is \<open>os.getcwd()\<close>).\<close>

record chord_conf =
  cf_chord_url :: "string option"
  cf_registry_url :: string
  cf_timeout :: nat
  cf_db_path :: string
  cf_db_file :: string

definition chord_conf_of :: "environ \<Rightarrow> string \<Rightarrow> chord_conf" where
  "chord_conf_of env cwd =
     \<lparr>cf_chord_url = env ''CHORD_URL'',
      cf_registry_url = env_get (env ''CHORD_REGISTRY_URL'') ''http://127.0.0.1:5000/'',
      cf_timeout = 45,
      cf_db_path = py_path_join cwd (env_get (env ''DATABASE'') ''data/federation.db''),
      cf_db_file = env_get (env ''DATABASE'') ''data/federation.db''\<rparr>"

text \<open>Lines 358--367: the route table and the base URL of the application.\<close>

datatype handler = HServiceInfo | HPeers | HSearchAggregate | HPostStartHook | HDatasetSearch
  | HPrivateDatasetSearch | HPeerRefresh | HFederatedDatasetSearch

definition BACKSLASH :: string where
  "BACKSLASH = [CHR 0x5C]"

definition chord_routes :: "string \<Rightarrow> (string \<times> handler) list" where
  "chord_routes base_url =
     [(base_url @ ''/service-info'', HServiceInfo),
      (base_url @ ''/peers'', HPeers),
      (base_url @ ''/search-aggregate/([a-zA-Z0-9'' @ BACKSLASH @ ''-_/]+)'', HSearchAggregate)]"

definition chord_base_url :: "environ \<Rightarrow> string" where
  "chord_base_url env = env_get (env ''BASE_URL'') ''''"

text \<open>
  Lines 370--377, \<open>run()\<close>: without \<open>CHORD_URL\<close> the process exits with
  status 1; otherwise it serves the application on the Unix socket named by
  \<open>SOCKET\<close> and runs the IO loop, which never returns.
\<close>

datatype run_outcome = RunExit nat | RunServe string

definition chord_run :: "environ \<Rightarrow> run_outcome" where
  "chord_run env =
     (if \<not> chord_run_guard (env ''CHORD_URL'') then RunExit 1
      else RunServe (env_get (env ''SOCKET'') ''/tmp/federation.sock''))"

section \<open>The later package's constants\<close>

text \<open>\<open>constants.py\<close> lines 36--58; \<open>v\<close> is the package version.\<close>

record fed_constants =
  k_base_path :: string
  k_chord_debug :: bool
  k_chord_url :: string
  k_chord_host :: string
  k_registry_url :: string
  k_oidc_discovery_uri :: "string option"
  k_db_path :: string
  k_service_id :: string
  k_service_socket :: string
  k_socket_internal :: string
  k_socket_internal_domain :: string
  k_urls_set :: bool
  k_timeout :: nat
  k_workers :: nat
  k_last_errored_cache_time :: nat

text \<open>
  The default argument of \<open>os.environ.get("CHORD_HOST", ...)\<close> is evaluated
  before the lookup, so \<open>urlparse\<close> runs on a non-empty \<open>CHORD_URL\<close> even
  when \<open>CHORD_HOST\<close> is set; its exception aborts the import.
\<close>

definition load_constants :: "environ \<Rightarrow> string \<Rightarrow> string \<Rightarrow> py_error + fed_constants" where
  "load_constants env cwd v =
     (let cu = env_get (env ''CHORD_URL'') '''';
          host_default = (if cu \<noteq> [] then url_netloc cu else Inr [])
      in case host_default of
           Inl e \<Rightarrow> Inl e
         | Inr host \<Rightarrow>
             Inr \<lparr>k_base_path = env_get (env ''SERVICE_URL_BASE_PATH'') '''',
                  k_chord_debug = (py_lower (env_get (env ''CHORD_DEBUG'') ''false'') = ''true''),
                  k_chord_url = cu,
                  k_chord_host = env_get (env ''CHORD_HOST'') host,
                  k_registry_url = env_get (env ''CHORD_REGISTRY_URL'') '''',
                  k_oidc_discovery_uri = env ''OIDC_DISCOVERY_URI'',
                  k_db_path = py_path_join cwd (env_get (env ''DATABASE'') ''data/federation.db''),
                  k_service_id = env_get (env ''SERVICE_ID'') (SERVICE_TYPE v),
                  k_service_socket = env_get (env ''SERVICE_SOCKET'') ''/tmp/federation.sock'',
                  k_socket_internal = env_get (env ''SOCKET_INTERNAL'') ''/var/run/nginx.sock'',
                  k_socket_internal_domain = ''nginx_internal'',
                  k_urls_set = CHORD_URLS_SET (env ''CHORD_URL'') (env ''CHORD_REGISTRY_URL''),
                  k_timeout = 120, k_workers = 10, k_last_errored_cache_time = 30\<rparr>)"

text \<open>
  The export list \<open>__all__\<close> (lines 7--33), which \<open>from .constants import *\<close>
  imports, and the names the module binds (lines 36--58), in their order.
\<close>

definition constants_all :: "string list" where
  "constants_all =
     [''BASE_PATH'', ''CHORD_DEBUG'', ''CHORD_URL'', ''CHORD_HOST'', ''CHORD_REGISTRY_URL'',
      ''OIDC_DISCOVERY_URI'', ''DB_PATH'',
      ''SERVICE_ORGANIZATION'', ''SERVICE_ARTIFACT'', ''SERVICE_TYPE'', ''SERVICE_ID'',
      ''SERVICE_SOCKET'', ''SOCKET_INTERNAL'', ''SOCKET_INTERNAL_DOMAIN'', ''CHORD_URLS_SET'',
      ''TIMEOUT'', ''WORKERS'', ''LAST_ERRORED_CACHE_TIME'']"

definition constants_bound :: "string list" where
  "constants_bound =
     [''BASE_PATH'', ''CHORD_DEBUG'', ''CHORD_URL'', ''CHORD_HOST'', ''CHORD_REGISTRY_URL'',
      ''OIDC_DISCOVERY_URI'', ''DB_PATH'', ''SERVICE_ORGANIZATION'', ''SERVICE_ARTIFACT'',
      ''SERVICE_TYPE'', ''SERVICE_ID'', ''SERVICE_SOCKET'', ''SOCKET_INTERNAL'',
      ''SOCKET_INTERNAL_DOMAIN'', ''CHORD_URLS_SET'', ''TIMEOUT'', ''WORKERS'',
      ''LAST_ERRORED_CACHE_TIME'']"

text \<open>
  \<open>from module import *\<close> with an \<open>__all__\<close>: every listed name must be bound
  in the module (an unbound one raises \<open>AttributeError\<close>); the names imported
  are the listed ones.
\<close>

definition star_import :: "string list \<Rightarrow> string list \<Rightarrow> py_error + string list" where
  "star_import all bound = (if set all \<subseteq> set bound then Inr all else Inl AttributeError)"

section \<open>The later package's application wiring\<close>

text \<open>
  \<open>bento_federation_service/app.py\<close>: the calls \<open>post_start_hook\<close> makes on
  the peer manager (lines 48--51; the manager lives in a module that is not
  under \<open>src/\<close>), the hook's handler (lines 55--67, status 204), the route
  table (lines 78--92) with the hook spawned at start (lines 94--95), and the
  guard of \<open>run()\<close> (lines 101--104).
\<close>

datatype pm_call = PMGetPeers

definition post_start_hook :: "bool \<Rightarrow> pm_call list" where
  "post_start_hook federation_mode = (if federation_mode then [PMGetPeers] else [])"

definition post_start_hook_get :: "bool \<Rightarrow> pm_call list \<times> nat" where
  "post_start_hook_get federation_mode = (post_start_hook federation_mode, 204)"

definition bento_routes :: "string \<Rightarrow> bool \<Rightarrow> (string \<times> handler) list" where
  "bento_routes base_path federation_mode =
     [(base_path @ ''/service-info'', HServiceInfo),
      (base_path @ ''/private/post-start-hook'', HPostStartHook),
      (base_path @ ''/dataset-search'', HDatasetSearch),
      (base_path @ ''/private/dataset-search/([a-zA-Z0-9'' @ BACKSLASH @ ''-_]+)'', HPrivateDatasetSearch)] @
     (if federation_mode then
        [(base_path @ ''/peers'', HPeers),
         (base_path @ ''/private/peers/refresh'', HPeerRefresh),
         (base_path @ ''/federated-dataset-search'', HFederatedDatasetSearch),
         (base_path @ ''/search-aggregate/([a-zA-Z0-9'' @ BACKSLASH @ ''-_/]+)'', HSearchAggregate)]
      else [])"

definition bento_init ::
  "string \<Rightarrow> bool \<Rightarrow> bool \<Rightarrow> (string \<times> handler) list \<times> pm_call list" where
  "bento_init base_path federation_mode initialize_immediately =
     (bento_routes base_path federation_mode,
      if initialize_immediately then post_start_hook federation_mode else [])"

definition bento_run_guard :: "string option \<Rightarrow> string option \<Rightarrow> bool" where
  "bento_run_guard cu cr \<longleftrightarrow> CHORD_URLS_SET cu cr"

text \<open>
  Lines 101--108, \<open>run()\<close> of the later package, given its module constants
  \<open>CHORD_URLS_SET\<close> and \<open>SERVICE_SOCKET\<close>: exit with status 1, or serve on
  the socket.
\<close>

definition bento_run :: "bool \<Rightarrow> string \<Rightarrow> run_outcome" where
  "bento_run urls_set service_socket =
     (if \<not> urls_set then RunExit 1 else RunServe service_socket)"

section \<open>Lemmas\<close>

lemma bento_peer_routes_iff_mode:
  "(\<exists>p. (p, HPeers) \<in> set (bento_routes b m)) \<longleftrightarrow> m"
  by (auto simp: bento_routes_def)

lemma distinct_map_append: "distinct (map (\<lambda>s. b @ s) xs) = distinct xs"
  by (simp add: distinct_map inj_on_def)

lemma bento_routes_distinct: "distinct (map fst (bento_routes b m))"
proof -
  have "map fst (bento_routes b m) = map (\<lambda>s. b @ s) (map fst (bento_routes [] m))"
    by (cases m) (simp_all add: bento_routes_def)
  moreover have "distinct (map fst (bento_routes [] m))"
    by (cases m) (simp_all add: bento_routes_def BACKSLASH_def)
  ultimately show ?thesis by (simp only: distinct_map_append)
qed

lemma chord_routes_distinct: "distinct (map fst (chord_routes b))"
proof -
  have "map fst (chord_routes b) = map (\<lambda>s. b @ s) (map fst (chord_routes []))"
    by (simp add: chord_routes_def)
  moreover have "distinct (map fst (chord_routes []))"
    by (simp add: chord_routes_def BACKSLASH_def)
  ultimately show ?thesis by (simp only: distinct_map_append)
qed

lemma url_netloc_http: "url_netloc ''http://peer.example.org:8000/api/'' = Inr ''peer.example.org:8000''"
  by (simp add: url_netloc_def scheme_char_def)

text \<open>
  The export list names each binding of the module exactly once, so the star
  import succeeds and exports every constant.
\<close>

lemma constants_star_import:
  "star_import constants_all constants_bound = Inr constants_all \<and> distinct constants_all \<and>
   set constants_all = set constants_bound"
  by (simp add: star_import_def constants_all_def constants_bound_def)

lemma chord_run_serves:
  "chord_run env = (case env ''CHORD_URL'' of None \<Rightarrow> RunExit 1
                    | Some u \<Rightarrow> RunServe (env_get (env ''SOCKET'') ''/tmp/federation.sock''))"
  by (simp add: chord_run_def chord_run_guard_def split: option.splits)

text \<open>
  With the later package's constants, a blank \<open>CHORD_URL\<close> stops \<open>run()\<close>,
  while this package's \<open>run()\<close> serves.
\<close>

lemma run_blank_url:
  "env ''CHORD_URL'' = Some [] \<Longrightarrow>
   bento_run (CHORD_URLS_SET (env ''CHORD_URL'') cr) sock = RunExit 1 \<and>
   chord_run env = RunServe (env_get (env ''SOCKET'') ''/tmp/federation.sock'')"
  by (simp add: bento_run_def chord_run_def chord_run_guard_def CHORD_URLS_SET_def env_get_def py_strip_def)

lemma load_constants_bad_host:
  "env ''CHORD_URL'' = Some ''http://[::1/'' \<Longrightarrow> load_constants env cwd v = Inl ValueError"
  by (simp add: load_constants_def env_get_def url_netloc_def scheme_char_def)

end
