(* ===== verification/Process.thy ===== *)
theory Process
  imports Gossip_Bounds Handlers Notify
begin

text \<open>
  The process of \<open>src/chord_federation/app.py\<close> with the refresh it has in
  flight.  A state is the application state and the gossip cycle of the
  running \<open>get_peers\<close> refresh, if any.  The events are every atomic piece of
  code that writes the application state: a \<open>get_peers\<close> call that finds no
  refresh needed (lines 307--310), one that starts a refresh (lines
  307--328, with the order in which the snapshot iterates), a worker event of
  the running cycle (lines 227--304), the code after \<open>join\<close> (lines
  333--338), and the start and the fetches of a notify (lines 99--158).  A
  search writes the application state only through \<open>get_peers\<close>.  The
  sentinel events after \<open>join\<close> change only the finished cycle
  (\<open>Refresh.shutdown_completes\<close>), so the cycle leaves the state at the join.
  Answers that make a worker die in \<open>peers.union\<close> are events like any
  other.
\<close>

type_synonym pstate = "app \<times> cycle option"

inductive proc_step :: "url \<Rightarrow> pstate \<Rightarrow> pstate \<Rightarrow> bool" for u where
  read: "get_peers_start u now qs a = (P, a', None) \<Longrightarrow> proc_step u (a, co) (a', co)"
| refresh: "get_peers_start u now qs a = (P, a', Some c) \<Longrightarrow> set_order qs P \<Longrightarrow>
            proc_step u (a, co) (a', Some c)"
| worker: "gstep (a, c) e = Some (a', c') \<Longrightarrow> proc_step u (a, Some c) (a', Some c')"
| join: "join_finish (a, c) = Some (a', c') \<Longrightarrow> proc_step u (a, Some c) (a', None)"
| notify_begin: "notify_start u now body a = (a', ph) \<Longrightarrow> proc_step u (a, co) (a', co)"
| notify_fetch: "notify_fetched now r x ns a = (a', ph) \<Longrightarrow> proc_step u (a, co) (a', co)"

text \<open>The states reachable from start-up over the table found at start.\<close>

inductive proc_reach :: "url \<Rightarrow> url \<Rightarrow> pstate \<Rightarrow> bool" for u r where
  init: "proc_reach u r (app_init (startup_db t u r), None)"
| step: "proc_reach u r s \<Longrightarrow> proc_step u s s' \<Longrightarrow> proc_reach u r s'"

text \<open>
  The invariant: \<open>fetching_peers\<close> is set exactly while a refresh is in
  flight; without one nobody is in \<open>contacting\<close>; with one its cycle has
  \<open>WORKERS\<close> workers and the crash-tolerant invariant \<open>cycle_wf\<close>.
\<close>

definition proc_inv :: "pstate \<Rightarrow> bool" where
  "proc_inv s \<longleftrightarrow>
     (case s of
        (a, None) \<Rightarrow> \<not> fetching_peers a \<and> contacting a = {}
      | (a, Some c) \<Rightarrow> fetching_peers a \<and> cycle_wf (a, c) \<and> length (workers c) = WORKERS)"

text \<open>
  Node \<open>a/\<close> with registry \<open>r/\<close>: a refresh starts, worker 0 skips the
  node itself, contacts \<open>r/\<close> and dies on its answer.
\<close>

definition ex_proc_events :: "gevent list" where
  "ex_proc_events = [Deq 0 1, Deq 0 1, PostDone 0 2 PostOk, GetDone 0 3 (GetCrash TypeError)]"

section \<open>Lemmas\<close>

lemma notify_loop_frame:
  "contacting (fst (notify_loop now a xs ns)) = contacting a \<and>
   fetching_peers (fst (notify_loop now a xs ns)) = fetching_peers a"
  by (induction now a xs ns rule: notify_loop.induct) (auto split: sum.splits)

lemma notify_start_frame:
  "contacting (fst (notify_start u now body a)) = contacting a \<and>
   fetching_peers (fst (notify_start u now body a)) = fetching_peers a"
  by (auto simp: notify_start_def Let_def notify_loop_frame split: option.splits sum.splits)

lemma notify_fetched_frame:
  "contacting (fst (notify_fetched now r x ns a)) = contacting a \<and>
   fetching_peers (fst (notify_fetched now r x ns a)) = fetching_peers a"
  by (auto simp: notify_fetched_def Let_def notify_loop_frame split: json.splits sum.splits bool.splits)

lemma proc_inv_frame:
  "proc_inv (a, co) \<Longrightarrow> contacting a' = contacting a \<Longrightarrow> fetching_peers a' = fetching_peers a \<Longrightarrow>
   proc_inv (a', co)"
  by (cases co) (auto simp: proc_inv_def dest: cycle_wf_contacting_cong [of a' a])

lemma proc_step_inv: "proc_step u s s' \<Longrightarrow> proc_inv s \<Longrightarrow> proc_inv s'"
proof (induction rule: proc_step.induct)
  case (read now qs a P a' co)
  then show ?case by (simp add: get_peers_start_def Let_def split: if_splits)
next
  case (refresh now qs a P a' c co)
  have fetch: "\<not> fetching_peers a" and c: "c = cycle_start u qs"
    and a': "a' = a\<lparr>fetching_peers := True, last_peers_update := now\<rparr>" and P: "P = set (db a)"
    using get_peers_start_Some [OF refresh.hyps(1)] by (simp_all add: refresh_needed_def)
  then have co: "co = None" and ct: "contacting a = {}"
    using refresh.prems by (auto simp: proc_inv_def split: option.splits)
  have "distinct qs" using refresh.hyps(2) by (simp add: set_order_def)
  then have "cycle_wf (a', c)" using cycle_start_wf [of qs a' u] ct by (simp add: a' c)
  then show ?case by (simp add: proc_inv_def a' c cycle_start_def)
next
  case (worker a c e a' c')
  then show ?case
    using gstep_wf [OF _ worker.hyps] gstep_frame [OF worker.hyps] gstep_length_workers [OF worker.hyps]
    by (simp add: proc_inv_def app_frame_def)
next
  case (join a c a' c')
  have u: "unfinished c = 0" and a': "contacting a' = contacting a" "\<not> fetching_peers a'"
    using join.hyps by (auto simp: join_finish_def split: if_splits)
  then show ?case using cycle_wf_joined [of a c] join.prems by (simp add: proc_inv_def)
next
  case (notify_begin now body a a' ph co)
  then show ?case using notify_start_frame [of u now body a] proc_inv_frame [of a co a'] by simp
next
  case (notify_fetch now r x ns a a' ph co)
  then show ?case using notify_fetched_frame [of now r x ns a] proc_inv_frame [of a co a'] by simp
qed

lemma proc_reach_inv: "proc_reach u r s \<Longrightarrow> proc_inv s"
proof (induction rule: proc_reach.induct)
  case (init t)
  then show ?case by (simp add: proc_inv_def app_init_def)
next
  case (step s s')
  then show ?case using proc_step_inv by blast
qed

lemma proc_reach_grun:
  "grun (a, c) es = Some (a', c') \<Longrightarrow> proc_reach u r (a, Some c) \<Longrightarrow> proc_reach u r (a', Some c')"
proof (induction es arbitrary: a c)
  case (Cons e es)
  then obtain a1 c1 where st: "gstep (a, c) e = Some (a1, c1)" and run: "grun (a1, c1) es = Some (a', c')"
    by (auto split: option.splits)
  have "proc_reach u r (a1, Some c1)"
    using proc_reach.step [OF Cons.prems(2) proc_step.worker [OF st]] .
  then show ?case using Cons.IH [OF run] by blast
qed simp

text \<open>
  C13. One refresh at a time, in the whole process: in every reachable state, whatever the interleaving of get_peers calls, gossip workers (crashed ones included), joins and notifies, fetching_peers is set exactly while a refresh is in flight, and while one is in flight no get_peers call starts a second cycle.
\<close>

theorem proc_one_refresh:
  "proc_reach u r (a, co) \<Longrightarrow>
   (fetching_peers a \<longleftrightarrow> co \<noteq> None) \<and> (co \<noteq> None \<longrightarrow> snd (snd (get_peers_start u' now qs a)) = None)"
proof -
  assume "proc_reach u r (a, co)"
  then have inv: "proc_inv (a, co)" by (rule proc_reach_inv)
  then have f: "fetching_peers a \<longleftrightarrow> co \<noteq> None" by (cases co) (simp_all add: proc_inv_def)
  then have "co \<noteq> None \<longrightarrow> \<not> refresh_needed now a" by (simp add: refresh_needed_def)
  with f show ?thesis by (simp add: get_peers_start_def Let_def)
qed

text \<open>
  C14. Bounded contacting set over the life of the process: in every reachable state, across any number of refreshes, crashes in peers.union and notifies, Application.contacting holds at most WORKERS peers, and it is empty whenever no refresh is in flight.
\<close>

theorem proc_contacting_bound:
  "proc_reach u r (a, co) \<Longrightarrow> card (contacting a) \<le> WORKERS \<and> (co = None \<longrightarrow> contacting a = {})"
proof -
  assume "proc_reach u r (a, co)"
  then have inv: "proc_inv (a, co)" by (rule proc_reach_inv)
  show ?thesis
  proof (cases co)
    case None
    then show ?thesis using inv by (simp add: proc_inv_def)
  next
    case (Some c)
    with inv have wf: "cycle_wf (a, c)" and len: "length (workers c) = WORKERS"
      by (simp_all add: proc_inv_def)
    have "card (contacting a) \<le> sum_list (map held (workers c))" using wf by (simp add: cycle_wf_def)
    also have "\<dots> \<le> WORKERS" using held_bound [of "workers c"] len by simp
    finally show ?thesis using Some by simp
  qed
qed

lemma ex_proc_crash:
  "\<exists>a' c'. proc_reach ''a/'' ''r/'' (a', Some c') \<and> contacting a' = {KStr ''r/''} \<and>
     Crashed TypeError \<in> set (workers c')"
proof -
  let ?a0 = "app_init [''a/'', ''r/'']"
  let ?a1 = "?a0\<lparr>fetching_peers := True, last_peers_update := 5000\<rparr>"
  have i: "app_init (startup_db None ''a/'' ''r/'') = ?a0"
    by (simp add: startup_db_def init_db_def insert_or_ignore_def)
  have r0: "proc_reach ''a/'' ''r/'' (?a0, None)"
    using proc_reach.init [where t = None and u = "''a/''" and r = "''r/''"] i by simp
  have st: "get_peers_start ''a/'' 5000 [''a/'', ''r/''] ?a0 =
              (set [''a/'', ''r/''], ?a1, Some (cycle_start ''a/'' [''a/'', ''r/'']))"
    by (simp add: get_peers_start_def refresh_needed_def STALENESS_def select_peers_def app_init_def)
  have o: "set_order [''a/'', ''r/''] (set [''a/'', ''r/''])" by (simp add: set_order_def)
  have r1: "proc_reach ''a/'' ''r/'' (?a1, Some (cycle_start ''a/'' [''a/'', ''r/'']))"
    using proc_reach.step [OF r0 proc_step.refresh [OF st o]] .
  have g: "grun (?a1, cycle_start ''a/'' [''a/'', ''r/'']) ex_proc_events =
     Some (?a1\<lparr>contacting := {KStr ''r/''}, connected_to_peer_network := True\<rparr>,
           (cycle_start ''a/'' [''a/'', ''r/''])\<lparr>to_check := [], unfinished := 1,
              to_check_set := {KStr ''r/''},
              workers := Crashed TypeError # replicate 9 (Waiting {KStr ''a/'', KStr ''r/''})\<rparr>)"
    by (simp add: ex_proc_events_def ex_simps numeral_eq_Suc insert_Diff_if insert_commute)
  show ?thesis using proc_reach_grun [OF g r1] by fastforce
qed

theorem proc_one_refresh_witness:
  "\<exists>a' c'. proc_reach ''a/'' ''r/'' (a', Some c') \<and> Crashed TypeError \<in> set (workers c') \<and>
     fetching_peers a' \<and> snd (snd (get_peers_start ''a/'' 9000 [''a/'', ''r/''] a')) = None"
proof -
  obtain a' c' where r: "proc_reach ''a/'' ''r/'' (a', Some c')" and w: "Crashed TypeError \<in> set (workers c')"
    using ex_proc_crash by blast
  show ?thesis using proc_one_refresh [OF r, of "''a/''" 9000 "[''a/'', ''r/'']"] r w by blast
qed

theorem proc_contacting_bound_witness:
  "\<exists>a' c'. proc_reach ''a/'' ''r/'' (a', Some c') \<and> contacting a' = {KStr ''r/''} \<and>
     card (contacting a') \<le> WORKERS"
proof -
  obtain a' c' where r: "proc_reach ''a/'' ''r/'' (a', Some c')" and ct: "contacting a' = {KStr ''r/''}"
    using ex_proc_crash by blast
  show ?thesis using proc_contacting_bound [OF r] r ct by blast
qed

end
