(* ===== verification/Spec2Isabelle.thy ===== *)
theory Spec2Isabelle
  imports Handlers Notify Gossip_Faults Gossip_Bounds Config Process
begin

text \<open>
  \<^bold>\<open>A verification model of the CHORD federation service.\<close>

  The program is \<open>src/chord_federation/app.py\<close>: a tornado web application
  that keeps a registry of peer nodes in the sqlite table \<open>peers\<close>, grows it by
  gossip, accepts gossip from other nodes, and fans a search out to every
  peer.  Its parts and how they interact:
  \<^item> the \<^bold>\<open>peer registry\<close> (\<open>init_db\<close>, the \<open>INSERT OR IGNORE\<close> and
    \<open>SELECT\<close> statements) and the process-wide state of \<open>Application\<close>
    (\<open>__init__\<close>): theory \<open>Registry\<close>, record \<open>app\<close>, \<open>insert_or_ignore\<close>,
    \<open>select_peers\<close>, \<open>init_db\<close>, \<open>app_init\<close>;
  \<^item> the \<^bold>\<open>dead-peer cache\<close> \<open>Application.last_errored\<close>:
    \<open>Registry.recently_errored\<close> (the 30-second test) and \<open>mark_errored\<close>;
  \<^item> the \<^bold>\<open>gossip engine\<close>, one cycle of \<open>Application.get_peers\<close> with its
    ten \<open>Application.peer_worker\<close> coroutines: theory \<open>Gossip\<close>, record
    \<open>cycle\<close> (the queue \<open>peers_to_check\<close>, its unfinished-task count,
    \<open>peers_to_check_set\<close>, \<open>attempted_contact\<close>, \<open>results\<close>, the workers),
    one definition per piece of the worker's body (\<open>worker_dequeue\<close>,
    \<open>take_item\<close>, \<open>skip_item\<close>, \<open>post_done\<close>, \<open>get_done\<close>, \<open>enqueue_new\<close>,
    \<open>finish_contact\<close>), the reader of a peer's \<open>GET\<close> answer
    \<open>read_get_body\<close>, the notify payload \<open>notify_payload\<close>, and the step
    function \<open>gstep\<close> with its runs \<open>grun\<close>; the in-flight tracker
    \<open>Application.contacting\<close> lives here.  Peers on the queue, in the
    sets and in \<open>last_errored\<close> are keys (\<open>pykey\<close>), so the items a peer
    reports need not be strings; a reported \<open>null\<close> goes on the queue as
    the object \<open>None\<close> (\<open>queue_item\<close>).  Theory \<open>Gossip_Faults\<close> follows a
    worker crash through the rest of a refresh; theory \<open>Gossip_Bounds\<close> bounds
    the peers contacted at once and proves termination and the safety of the
    cycle under the crash-tolerant invariant \<open>cycle_wf\<close>;
  \<^item> the \<^bold>\<open>refresh policy\<close>, the rest of \<open>get_peers\<close>: theory \<open>Refresh\<close>,
    \<open>refresh_needed\<close> (staleness, invalidation, \<open>fetching_peers\<close>),
    \<open>get_peers_start\<close>, \<open>join_finish\<close> (the code after \<open>join\<close>), a whole
    refresh \<open>refresh_run\<close> and the whole call \<open>get_peers\<close>;
  \<^item> the \<^bold>\<open>notification handler\<close> \<open>PeerHandler.post\<close>: theory \<open>Notify\<close>,
    \<open>notify_start\<close> (parsing and the duplicate check on
    \<open>Application.notifying\<close>), \<open>notify_loop\<close> (the loop over the announced
    peers up to the next fetch), \<open>notify_fetched\<close> (a returned service-info
    fetch and its type-tag test) and the run \<open>notify_run\<close>;
  \<^item> the \<^bold>\<open>federated search\<close> \<open>SearchHandler.post\<close> and
    \<open>search_worker\<close>: theory \<open>Search\<close>, record \<open>search\<close>, \<open>search_start\<close>,
    \<open>search_deq\<close>, \<open>search_resp\<close>, \<open>sstep\<close>/\<open>srun\<close>, and the aggregation
    \<open>aggregate\<close> with \<open>search_finish\<close>;
  \<^item> the \<^bold>\<open>handlers and start-up\<close>: theory \<open>Handlers\<close>,
    \<open>service_info_get\<close> (\<open>ServiceInfoHandler.get\<close>), \<open>peer_get\<close>
    (\<open>PeerHandler.get\<close>), \<open>search_post\<close> (the whole \<open>SearchHandler.post\<close>:
    \<open>get_peers\<close>, then the fan-out), \<open>startup_db\<close> (\<open>init_db\<close> or
    \<open>update_db\<close> at import), \<open>chord_run_guard\<close> (\<open>run()\<close>), and for
    comparison the service-info document of
    \<open>src/bento_federation_service/app.py\<close> and the constants
    \<open>SERVICE_TYPE\<close> and \<open>CHORD_URLS_SET\<close> of
    \<open>src/chord_federation_service/constants.py\<close>;
  \<^item> the \<^bold>\<open>process as a whole\<close>, in this theory: \<open>app_step\<close>, an
    inductive relation whose events are every atomic piece of every handler
    and coroutine that writes the application state (cycle and handler locals
    left free, so every interleaving of refreshes, notifies and searches is
    covered), and \<open>app_reach\<close>, the states reachable from start-up;
    theory \<open>Process\<close> pairs the application state with the gossip cycle
    of the refresh in flight (\<open>proc_step\<close>, \<open>proc_reach\<close>), so that a
    refresh's worker events, its join and the other handlers interleave on
    one shared state;
  \<^item> \<^bold>\<open>configuration and wiring\<close>: theory \<open>Config\<close>, the module
    constants of \<open>app.py\<close> (\<open>chord_conf_of\<close>) and of
    \<open>chord_federation_service/constants.py\<close> (\<open>load_constants\<close>, with
    \<open>urlparse\<close>'s network location \<open>url_netloc\<close>), the route tables
    (\<open>chord_routes\<close>, \<open>bento_routes\<close>), \<open>run()\<close> of this package
    (\<open>chord_run\<close>: exit, or the socket it serves on), and the start-up of
    \<open>bento_federation_service/app.py\<close> (\<open>post_start_hook\<close>,
    \<open>bento_init\<close>, \<open>bento_run_guard\<close>).
  Theory \<open>Prelude\<close> holds the shared types, the Python and tornado builtins
  whose failures the code can hit (\<open>set.remove\<close>, \<open>Queue.task_done\<close>), JSON
  values with Python's \<open>[]\<close>, iteration and \<open>in\<close>, the hashing of a value
  for a set or a dict (\<open>hash_key\<close>, into the type \<open>pykey\<close> of keys under
  Python's equality, where \<open>1 == True == 1.0\<close>), and the list and multiset
  lemmas the components share.

  \<^bold>\<open>Concurrency.\<close>  Tornado runs every coroutine on one thread, switching
  only at an \<open>await\<close> that suspends.  Each component is therefore a state and
  a set of atomic events, one per stretch of code between two suspensions;
  an event not enabled in a state gives \<open>None\<close>, and a run is any list of
  events.  Every tornado schedule is a run of the model, so a property proved
  for all runs holds for every schedule.  The converse does not hold: a
  \<open>get\<close> on a non-empty queue returns without suspending, while the model
  lets other events run before the dequeue, so it allows more schedules than
  tornado does, which only makes the claims about all runs stronger.  Exceptions are values: a worker
  whose \<open>set.remove\<close> or \<open>task_done\<close> raises is \<open>Crashed\<close>, a handler that
  raises answers \<open>Resp500\<close>, an aggregation that raises is \<open>Inl\<close>.  The
  network is a parameter: the outcome of each fetch is part of the event
  (gossip, notify), or a function from peer to outcome (search, where each peer
  is asked once, so the function covers every behaviour).

  \<^bold>\<open>What the lemmas show.\<close>
  \<^item> Gossip: the exact cycle invariant \<open>cycle_inv\<close> holds after every run
    in which every peer's answer is one the worker digests (\<open>benign\<close>
    events; \<open>grun_cycle_inv\<close>; without that premise it fails, see
    below); a peer that failed is
    skipped within 30 seconds of its failure and contacted after
    (\<open>dequeue_dead_peer_window\<close>);
    failures are recorded and do not abort the cycle; the enqueue loop queues
    exactly the unknown reported peers.  Whatever the peers answer, including
    answers that kill a worker in \<open>peers.union\<close>, the weaker invariant
    \<open>cycle_wf\<close> of theory \<open>Gossip_Bounds\<close> holds after every run, and
    with it: runs are bounded by \<open>gmeasure U\<close> when the URLs peers report
    come from a finite set \<open>U\<close> (\<open>grun_length_bound\<close>); the "avoiding
    race" branch is unreachable (\<open>dequeued_not_contacting\<close>); no attempted
    peer is contacted again (\<open>attempted_never_recontacted\<close>); in a state
    reached from the start of a cycle where no event is enabled the join waits for exactly the queue (empty
    unless every worker died), the peers dead workers left in
    \<open>contacting\<close> and one task per worker that returned on a reported
    \<open>null\<close>, so without either it returns
    (\<open>cycle_stuck_state\<close>); at most
    \<open>WORKERS\<close> peers are in \<open>contacting\<close>, counting those dead workers
    leave there (\<open>contacting_bound\<close>).  A single answer that makes
    \<open>peers.union\<close> raise leaves a task unfinished for ever, so the refresh
    never completes and no refresh ever starts again
    (\<open>crash_blocks_refresh\<close>, by the quantity \<open>gdeficit\<close>, which no
    event decreases).  A \<open>null\<close> in a reported list does the same: the
    worker that dequeues it takes it for the exit sentinel and returns
    without \<open>task_done\<close> (\<open>null_blocks_refresh\<close>).
  \<^item> Refresh: a refresh leaves the registry unchanged, because each worker
    rebinds its own \<open>peers\<close> (\<open>refresh_keeps_registry\<close>, a bug); the
    staleness and mutual-exclusion gates, and two reads within the hour run
    at most one cycle unless the first one set the flag
    (\<open>staleness_gating\<close>); the invalidation flag is never
    cleared; the sentinels end every worker.
  \<^item> Notify: the only insertion is a fetched URL whose type carries the
    protocol tag; duplicates are acknowledged without effect;
    \<open>peer_cache_invalidated\<close> is overwritten with a value read
    before the awaits (a lost update); a non-iterable \<open>peers\<close> locks the sender
    out for ever; the handler answers after at most one event per peer.
    Announced items are compared by Python equality, and an item that is not
    a string is recorded in \<open>last_errored\<close>, as its fetch always fails.
  \<^item> Search: the invariant \<open>search_inv\<close> (each peer queued, being fetched, or
    answered exactly once) holds after every run; runs have at most twice as
    many events as peers; a run from the start of a search never deadlocks
    (\<open>search_no_deadlock\<close>); the aggregate equals, up to the order
    of results, that of asking the peers one by one (\<open>search_refines\<close>); the
    counts; the example of the specification; a malformed answer fails the
    request with an uncaught error, after which the workers are never released
    (\<open>search_error_leaks_workers\<close>), while a successful search releases them;
    every successful body has the documented shape, with \<open>total\<close> the
    number of peers asked and \<open>responded\<close> the number that answered
    (\<open>aggregate_body_ok\<close>).
  \<^item> Handlers: \<open>GET /peers\<close> answers the pre-refresh table and a
    \<open>last_updated\<close> shifted by the server's UTC offset; \<open>GET /service-info\<close>
    never writes the table, and writes nothing unless \<open>update_peers\<close> is
    \<open>"true"\<close>.
  \<^item> Across components (this theory): the registry invariant of the
    specification (own and registry URL present, no duplicate) holds in every
    reachable state of the process (\<open>app_reach_registry\<close>, by rule
    induction over \<open>app_step\<close>); the table only grows; the dead-peer
    cache is shared, so a peer whose fetch failed in a notify is skipped by
    a gossip worker for 30 seconds (\<open>notify_failure_suppresses_gossip\<close>);
    a search's
    \<open>total\<close> is the size of the table before the request; the document
    \<open>GET /peers\<close> writes is read back by another node's worker as exactly
    its list, and the notify payload a worker sends is parsed by the receiving
    handler into its peers, each hashing back to the key it had in the
    sender's set (round trips).  In theory \<open>Process\<close>,
    over every reachable state of the process with its refresh in flight:
    \<open>fetching_peers\<close> is set exactly while a refresh runs, no second cycle
    starts meanwhile (\<open>proc_one_refresh\<close>), and \<open>contacting\<close> never holds
    more than \<open>WORKERS\<close> peers and is empty between refreshes
    (\<open>proc_contacting_bound\<close>), crashes in \<open>peers.union\<close> included; nodes of this service accept
    each other at every version, and reject the later package's
    \<open>SERVICE_TYPE\<close>; the start-up guards differ on blank URLs.
  \<^item> Registry: idempotent insertion, the seeding of \<open>init_db\<close>, the 30-second
    window of the dead-peer cache.
  \<^item> Configuration: the route tables have distinct patterns, the peer routes
    of the later package exist exactly in federation mode, the export list
    \<open>__all__\<close> of the constants module names each of its bindings once, and a
    \<open>CHORD_URL\<close> with an unmatched bracket makes the constants module fail
    to import.

  \<^bold>\<open>Bounds.\<close>  No fuel is used: every run is a finite event list, and
  termination is a bound on its length.  The gossip bound
  \<open>gmeasure U c = card (U - attempted) * (3 card U + 3 W + 1) + 3 |queued peers| +
  \<Sum> phases\<close> decreases with every event: a finished contact adds a peer to
  \<open>attempted\<close> and may queue at most \<open>card U\<close> peers; every other event moves
  a worker forward (a worker that returns on \<open>None\<close> has phase 0) or removes
  a queued peer.  The search bound is
  \<open>2 |queue| + |peers being fetched|\<close>.  The notify run is bounded by the
  number of announced peers.

  \<^bold>\<open>Not modelled.\<close>  Socket binding and the IO loop of \<open>run()\<close>; log
  output; timeouts (a timed-out fetch is a failed outcome); the encoding of
  bodies (a body is the JSON value \<open>json.dumps\<close> writes and
  \<open>json.loads\<close> reads back).  Python does not specify the order in which
  it iterates a \<open>set\<close>: every loop over one (the gossip queue, the search
  queue, the written peer lists, the inserts after \<open>join\<close>) takes the order
  as a parameter, constrained only by \<open>set_order\<close> (each element once), so
  the claims hold for every order.  The JSON values of the model have no
  \<open>NaN\<close> or infinite floats, which \<open>json.loads\<close> also accepts; a set keeps
  the first of several equal elements, and \<open>json.dumps\<close> of a numeric key
  is written as a float (\<open>key_json\<close>), which compares equal to it.
  The fetch of a peer that is not a string always fails (its formatted URL
  has no scheme); the gossip events leave its outcome free, so the claims
  also cover the outcomes that cannot happen.  The table holds strings: the
  \<open>NULL\<close> row that an import without \<open>CHORD_URL\<close> can write (the schema
  is not under \<open>src/\<close>) is not modelled.
  \<open>get_peers\<close>, \<open>refresh_run\<close> and the handlers built on them model one
  call run on its own: the wait for the workers to exit (line 344) is not a
  point where other handlers interleave, although in tornado another request
  can start a refresh there, after \<open>fetching_peers\<close> is cleared; the
  single-call claims are about a call run alone, while theory \<open>Process\<close>
  lets every event interleave.
  The exact invariant \<open>cycle_inv\<close> assumes digestible answers
  (\<open>benign\<close>: no crash in \<open>peers.union\<close> and no reported \<open>null\<close>);
  with a crashed or returned worker \<open>join\<close> never returns, which is
  \<open>crash_blocks_refresh\<close> and \<open>null_blocks_refresh\<close>.  In \<open>src/bento_federation_service/app.py\<close>
  the peer manager and the handlers the routes name live in modules
  (\<open>peers\<close>, \<open>search\<close>, \<open>db\<close>, \<open>constants\<close> of that package) that
  are not under \<open>src/\<close>; the model keeps the calls made on them.
  \<open>urlsplit\<close>'s checks of bracketed hosts added in recent Python releases
  are not modelled (only the unmatched bracket).
\<close>

section \<open>The application as one state machine\<close>

text \<open>
  Every atomic event any handler or coroutine of the process can run, as its
  effect on the application state: the start of \<open>get_peers\<close>, a gossip
  worker event, the code after \<open>join\<close>, the start of a notify and a returned
  notify fetch.  The cycle and handler locals are left free, so the relation
  allows every interleaving of concurrent refreshes, notifies and searches
  (a search changes the application state only through \<open>get_peers\<close>).
\<close>

inductive app_step :: "url \<Rightarrow> app \<Rightarrow> app \<Rightarrow> bool" for u where
  start: "get_peers_start u now qs a = (P, a', co) \<Longrightarrow> app_step u a a'"
| worker: "gstep (a, c) e = Some (a', c') \<Longrightarrow> app_step u a a'"
| join: "join_finish (a, c) = Some (a', c') \<Longrightarrow> app_step u a a'"
| notify_begin: "notify_start u now body a = (a', ph) \<Longrightarrow> app_step u a a'"
| notify_fetch: "notify_fetched now r x ns a = (a', ph) \<Longrightarrow> app_step u a a'"

text \<open>
  The states of a process whose own URL is \<open>u\<close> and registry URL \<open>r\<close>: the
  start-up state over the table found at start (missing, or one already
  holding both URLs without duplicates), then any events.
\<close>

inductive app_reach :: "url \<Rightarrow> url \<Rightarrow> app \<Rightarrow> bool" for u r where
  init: "(case t of None \<Rightarrow> True | Some d \<Rightarrow> u \<in> set d \<and> r \<in> set d \<and> distinct d) \<Longrightarrow>
         app_reach u r (app_init (startup_db t u r))"
| step: "app_reach u r a \<Longrightarrow> app_step u a a' \<Longrightarrow> app_reach u r a'"

section \<open>Lemmas across the components\<close>

lemma set_fold_insert_or_ignore [simp]:
  "set (fold insert_or_ignore ps d) = set d \<union> set ps"
  by (induction ps arbitrary: d) auto

lemma distinct_fold_insert_or_ignore [simp]:
  "distinct (fold insert_or_ignore ps d) = distinct d"
  by (induction ps arbitrary: d) auto

lemma notify_start_db: "db (fst (notify_start u now body a)) = db a"
  by (auto simp: notify_start_def Let_def notify_loop_db split: option.splits sum.splits)

lemma notify_fetched_db:
  "db (fst (notify_fetched now r x ns a)) = db a \<or>
   (\<exists>p. db (fst (notify_fetched now r x ns a)) = insert_or_ignore p (db a))"
  by (auto simp: notify_fetched_def Let_def notify_loop_db split: json.splits sum.splits bool.splits)

lemma app_step_db:
  "app_step u a a' \<Longrightarrow> set (db a) \<subseteq> set (db a') \<and> (distinct (db a) \<longrightarrow> distinct (db a'))"
proof (induction rule: app_step.induct)
  case (start now qs a P a' co)
  then show ?case by (auto simp: get_peers_start_def Let_def split: if_splits)
next
  case (worker a c e a' c')
  then show ?case using gstep_frame [of a c e a' c'] by (simp add: app_frame_def)
next
  case (join a c a' c')
  then show ?case by (auto simp: join_finish_def split: if_splits)
next
  case (notify_begin now body a a' ph)
  then show ?case using notify_start_db [of u now body a] by simp
next
  case (notify_fetch now r x ns a a' ph)
  then show ?case using notify_fetched_db [of now r x ns a] by auto
qed

lemma str_contains_append: "str_contains n (n @ rest)"
  by (simp add: str_contains_sublist)

text \<open>
  C27. The registry invariant of the specification: in every state the
  process can reach, whatever the interleaving of refreshes, gossip workers,
  notifies and searches, the table holds the node's own URL and the registry
  URL, each URL once.
\<close>

theorem app_reach_registry:
  "app_reach u r a \<Longrightarrow> u \<in> set (db a) \<and> r \<in> set (db a) \<and> distinct (db a)"
proof (induction rule: app_reach.induct)
  case (init t)
  then show ?case by (cases t) (auto simp: startup_db_def init_db_def app_init_def)
next
  case (step a a')
  then show ?case using app_step_db [OF step.hyps(2)] by auto
qed

text \<open>
  C28. Peers are never removed: along any sequence of events of the process,
  the set of URLs in the table only grows.
\<close>

theorem registry_only_grows:
  "rtranclp (app_step u) a a' \<Longrightarrow> set (db a) \<subseteq> set (db a')"
proof (induction rule: rtranclp_induct)
  case base
  then show ?case by simp
next
  case (step b c)
  then show ?case using app_step_db [OF step.hyps(2)] by auto
qed

text \<open>
  C29. The count a search reports as \<open>total\<close> is the number of rows the
  table had before the request, whatever the refresh it triggered found and
  whatever the order of the answers; the search leaves the table as it was.
\<close>

theorem search_post_total:
  "search_post u now qs es ps net ses a = Some (Inr body, a') \<Longrightarrow>
   \<exists>xs n. body = JObj [(''results'', JArr xs),
                        (''peers'', JObj [(''responded'', JNum n), (''total'', JNum (int (card (set (db a)))))])] \<and>
          db a' = db a"
proof -
  assume sp: "search_post u now qs es ps net ses a = Some (Inr body, a')"
  then obtain P s s' where g: "get_peers u now qs es a = Some (P, a')" and ps: "set ps = P" "distinct ps"
    and r: "srun net (search_start ps) ses = Some s" and f: "search_finish s = Some (Inr body, s')"
    by (auto simp: search_post_def split: option.splits if_splits)
  have P: "P = set (db a)" and d: "db a' = db a" using get_peers_Some [OF g] by simp_all
  have inv: "search_inv net ps s" using srun_inv_measure [OF search_start_inv r] by blast
  have u0: "s_unfinished s = 0" and ag: "aggregate (s_responses s) = Inr body"
    using search_finish_Some [OF f] by simp_all
  have "length (s_responses s) = length ps"
    using mset_eq_length [OF search_finished(3) [OF inv u0]] by simp
  moreover have "card (set (db a)) = length ps" using distinct_card [OF ps(2)] ps(1) P by simp
  ultimately show ?thesis
    using ag d by (auto simp: aggregate_def aggregate_parts_def split: sum.splits)
qed

text \<open>
  Two nodes of this service accept each other whatever their versions:
  the notify handler's type test passes on the service-info document of any
  version.
\<close>

lemma chord_nodes_compatible:
  "type_check (FetchBody (Some (chord_service_info v))) = Inr True"
proof -
  have e: "''ca.distributedgenomics:chord_federation:'' @ v = SERVICE_TAG @ CHR '':'' # v"
    by (simp add: SERVICE_TAG_def)
  show ?thesis
    unfolding chord_service_info_def e by (simp add: str_contains_append del: str_contains.simps)
qed

text \<open>
  C38. The node rejects the later packages of the repository: a service-info
  document whose \<open>type\<close> is their \<open>SERVICE_TYPE\<close> (\<open>ca.c3g.chord:federation:\<close>
  and a version of digits and dots) fails the type test, so such peers are
  never inserted by the notify handler.
\<close>

theorem later_package_rejected:
  "list_all (\<lambda>ch. ch \<noteq> CHR ''c'') v \<Longrightarrow>
   type_check (FetchBody (Some (bento_service_info sid nm (SERVICE_TYPE v) v'))) = Inr False"
proof -
  assume v: "list_all (\<lambda>ch. ch \<noteq> CHR ''c'') v"
  have "\<not> str_contains SERVICE_TAG v"
    using v by (intro str_contains_no_head) (auto simp: SERVICE_TAG_def list_all_iff)
  then show ?thesis
    by (simp add: bento_service_info_def SERVICE_TYPE_def SERVICE_TAG_def)
qed

text \<open>
  The start-up guards differ: \<open>run()\<close> of this package starts with a
  blank \<open>CHORD_URL\<close>, which the later package's \<open>CHORD_URLS_SET\<close> rejects.
\<close>

lemma run_guard_blank_url:
  "chord_run_guard (Some []) \<and> chord_run_guard (Some '' '') \<and>
   \<not> CHORD_URLS_SET (Some []) cr \<and> \<not> CHORD_URLS_SET (Some '' '') cr"
  by (simp add: chord_run_guard_def CHORD_URLS_SET_def py_strip_def py_isspace_def env_get_def)

lemma app_reach_registry_witness:
  "app_reach ''a/'' ''r/'' ((app_init [''a/'', ''r/''])\<lparr>fetching_peers := True, last_peers_update := 5000\<rparr>) \<and>
   ''a/'' \<in> set [''a/'', ''r/''] \<and> ''r/'' \<in> set [''a/'', ''r/''] \<and> distinct [''a/'', ''r/'']"
proof -
  have i: "app_init (startup_db None ''a/'' ''r/'') = app_init [''a/'', ''r/'']"
    by (simp add: startup_db_def init_db_def insert_or_ignore_def)
  have r0: "app_reach ''a/'' ''r/'' (app_init [''a/'', ''r/''])"
    using app_reach.init [where t = None and u = "''a/''" and r = "''r/''"] i by simp
  have st: "app_step ''a/'' (app_init [''a/'', ''r/''])
              ((app_init [''a/'', ''r/''])\<lparr>fetching_peers := True, last_peers_update := 5000\<rparr>)"
    by (rule app_step.start [where now = 5000 and qs = "[''a/'', ''r/'']" and P = "set [''a/'', ''r/'']"
          and co = "Some (cycle_start ''a/'' [''a/'', ''r/''])"])
       (simp add: get_peers_start_def refresh_needed_def STALENESS_def select_peers_def app_init_def)
  have r1: "app_reach ''a/'' ''r/'' ((app_init [''a/'', ''r/''])\<lparr>fetching_peers := True, last_peers_update := 5000\<rparr>)"
    using app_reach.step [OF r0 st] .
  show ?thesis using app_reach_registry [OF r1] r1 by (simp add: app_init_def)
qed

lemma registry_only_grows_witness:
  "rtranclp (app_step ''a/'') ((app_init [''a/''])\<lparr>notifying := {KStr ''b/''}\<rparr>)
     ((app_init [''a/'', ''c/''])\<lparr>peer_cache_invalidated := True\<rparr>) \<and>
   set [''a/''] \<subseteq> set [''a/'', ''c/'']"
proof -
  let ?a0 = "(app_init [''a/''])\<lparr>notifying := {KStr ''b/''}\<rparr>"
  let ?a1 = "(app_init [''a/'', ''c/''])\<lparr>peer_cache_invalidated := True\<rparr>"
  let ?ns = "\<lparr>ns_self = KStr ''b/'', ns_todo = [], ns_attempted = {}, ns_new_pci = False\<rparr>"
  have "notify_fetched 0 (FetchBody (Some (chord_service_info ''1''))) (JStr ''c/'') ?ns ?a0 = (?a1, NDone Resp200)"
    by (simp add: notify_fetched_def chord_service_info_def SERVICE_TAG_def app_init_def
        insert_or_ignore_def peer_row_missing_def)
  then have "app_step ''a/'' ?a0 ?a1" by (rule app_step.notify_fetch)
  then have s: "rtranclp (app_step ''a/'') ?a0 ?a1" by (rule r_into_rtranclp)
  show ?thesis using registry_only_grows [OF s] s by (simp add: app_init_def)
qed

lemma search_post_total_witness:
  "\<exists>xs n. search_post ''http://a/'' 100 [] [] ex_peers ex_net ex_sevents ((app_init ex_peers)\<lparr>last_peers_update := 100\<rparr>) =
     Some (Inr (JObj [(''results'', JArr xs), (''peers'', JObj [(''responded'', JNum n), (''total'', JNum 3)])]),
           (app_init ex_peers)\<lparr>last_peers_update := 100\<rparr>)"
proof -
  let ?a = "(app_init ex_peers)\<lparr>last_peers_update := 100\<rparr>"
  have nr: "\<not> refresh_needed 100 ?a" by (simp add: refresh_needed_def STALENESS_def app_init_def)
  have d: "db ?a = ex_peers" by (simp add: app_init_def)
  have dp: "distinct ex_peers" by (simp add: ex_peers_def)
  have g: "get_peers ''http://a/'' 100 [] [] ?a = Some (set ex_peers, ?a)"
    using get_peers_no_refresh [OF nr] d by simp
  have f: "search_finish ex_search_done =
     Some (Inr (JObj [(''results'', JArr [JNum 1, JNum 2, JNum 3]),
                      (''peers'', JObj [(''responded'', JNum 2), (''total'', JNum 3)])]),
           ex_search_done\<lparr>sq := replicate WORKERS None, s_unfinished := WORKERS\<rparr>)"
    by (simp add: ex_search_done_def search_finish_def aggregate_def aggregate_parts_def
        good_responses_def results_of_def)
  have sp: "search_post ''http://a/'' 100 [] [] ex_peers ex_net ex_sevents ?a =
     Some (Inr (JObj [(''results'', JArr [JNum 1, JNum 2, JNum 3]),
                      (''peers'', JObj [(''responded'', JNum 2), (''total'', JNum 3)])]), ?a)"
    using ex_srun f by (simp add: search_post_def g dp)
  have "card (set (db ?a)) = 3" by (simp add: app_init_def ex_peers_def)
  then show ?thesis using search_post_total [OF sp] sp by auto
qed

lemma later_package_rejected_witness:
  "list_all (\<lambda>ch. ch \<noteq> CHR ''c'') ''0.7.0'' \<and>
   type_check (FetchBody (Some (bento_service_info ''ca.c3g.chord:federation:0.7.0'' ''Bento Federation Service''
      (SERVICE_TYPE ''0.7.0'') ''0.7.0''))) = Inr False"
  using later_package_rejected [of "''0.7.0''"] by simp


text \<open>
  C9. The dead-peer cache is shared: a peer whose service-info fetch failed
  in a notify (any item that is not a string, or a URL whose service-info
  does not parse) is skipped, not contacted, by a gossip worker that
  dequeues it less than 30 seconds later, and its task is marked done.
\<close>

theorem notify_failure_suppresses_gossip:
  "hash_key x = Inr k \<Longrightarrow> (case x of JStr u \<Rightarrow> \<exists>e. type_check r = Inl e | _ \<Rightarrow> True) \<Longrightarrow>
   fst (notify_fetched now r x ns a) = a' \<Longrightarrow> cycle_inv (a', c) \<Longrightarrow>
   i < length (workers c) \<Longrightarrow> workers c ! i = Waiting P \<Longrightarrow> to_check c = Some k # rest \<Longrightarrow>
   k \<notin> attempted c \<Longrightarrow> t - now < 30 \<Longrightarrow>
   gstep (a', c) (Deq i t) =
     Some (a', c\<lparr>to_check := rest, to_check_set := to_check_set c - {k}, unfinished := unfinished c - 1\<rparr>)"
proof -
  assume h: "hash_key x = Inr k" "case x of JStr u \<Rightarrow> \<exists>e. type_check r = Inl e | _ \<Rightarrow> True"
    and a': "fst (notify_fetched now r x ns a) = a'" and inv: "cycle_inv (a', c)"
    and w: "i < length (workers c)" "workers c ! i = Waiting P" "to_check c = Some k # rest"
    and na: "k \<notin> attempted c" and t: "t - now < 30"
  have "last_errored a' k = Some now" using notify_fetched_failed_marks [OF h, of now ns a] a' by simp
  then show ?thesis using inv w na t
    by (auto simp: worker_dequeue_def cycle_inv_def skip_item_ok recently_errored_def
        LAST_ERRORED_CACHE_TIME_def)
qed

lemma notify_failure_suppresses_gossip_witness:
  "hash_key (JNum 5) = Inr (KNum 5) \<and>
   cycle_inv (fst (notify_fetched 100 FetchFailed (JNum 5) ex_nstate (app_init [''a/''])),
              (cycle_start ''a/'' [])\<lparr>to_check := [Some (KNum 5)], unfinished := 1, to_check_set := {KNum 5}\<rparr>) \<and>
   gstep (fst (notify_fetched 100 FetchFailed (JNum 5) ex_nstate (app_init [''a/''])),
          (cycle_start ''a/'' [])\<lparr>to_check := [Some (KNum 5)], unfinished := 1, to_check_set := {KNum 5}\<rparr>)
     (Deq 0 110) =
   Some (fst (notify_fetched 100 FetchFailed (JNum 5) ex_nstate (app_init [''a/''])),
         (cycle_start ''a/'' [])\<lparr>to_check := [], unfinished := 0, to_check_set := {}\<rparr>)"
proof -
  let ?a' = "fst (notify_fetched 100 FetchFailed (JNum 5) ex_nstate (app_init [''a/'']))"
  let ?c = "(cycle_start ''a/'' [])\<lparr>to_check := [Some (KNum 5)], unfinished := 1, to_check_set := {KNum 5}\<rparr>"
  have h: "hash_key (JNum 5) = Inr (KNum 5)" by simp
  have ct: "contacting ?a' = {}"
    by (simp add: notify_fetched_def ex_nstate_def app_init_def mark_errored_def)
  have inv: "cycle_inv (?a', ?c)"
    using ct by (simp add: cycle_inv_def cycle_start_def busy_def WORKERS_def list_all_iff)
  have w: "0 < length (workers ?c)" "workers ?c ! 0 = Waiting {}" "to_check ?c = Some (KNum 5) # []"
    "KNum 5 \<notin> attempted ?c"
    by (simp_all add: cycle_start_def WORKERS_def)
  show ?thesis
    using notify_failure_suppresses_gossip [OF h _ refl inv w, where t = 110] h inv
    by simp
qed

text \<open>
  C30. Round trip between two nodes: the document \<open>GET /peers\<close> writes,
  read by another node's gossip worker, yields exactly the peer list written,
  in its order, as the keys of its URLs.
\<close>

theorem peers_body_roundtrip:
  "read_get_body (Some (peers_body ps t)) = GetPeers (map KStr ps)"
  by (simp add: read_get_body_def peers_body_def)

text \<open>
  C31. Round trip of the notify payload: the body a gossip worker POSTs
  (line 266), parsed by the receiving node's notify handler, starts the loop
  over the sender's peers, each written so that it hashes back to the same key,
  with the sender as \<open>self\<close>, unless a notify from that sender is already
  being processed.
\<close>

theorem notify_payload_roundtrip:
  "KStr u \<notin> notifying a \<Longrightarrow>
   notify_start me now (Some (notify_payload u ps)) a =
     notify_loop now (a\<lparr>notifying := insert (KStr u) (notifying a)\<rparr>) (map key_json ps)
       \<lparr>ns_self = KStr u, ns_todo = map key_json ps, ns_attempted = {KStr me},
        ns_new_pci = peer_cache_invalidated a\<rparr> \<and>
   hash_keys (map key_json ps) = Inr ps"
  by (simp add: notify_start_def notify_payload_def)

lemma notify_payload_roundtrip_witness:
  "KStr ''b/'' \<notin> notifying (app_init [''a/'']) \<and>
   notify_start ''a/'' 0 (Some (notify_payload ''b/'' [KStr ''a/'', KNum 5])) (app_init [''a/'']) =
     notify_loop 0 ((app_init [''a/''])\<lparr>notifying := {KStr ''b/''}\<rparr>) [JStr ''a/'', JReal 5]
       \<lparr>ns_self = KStr ''b/'', ns_todo = [JStr ''a/'', JReal 5], ns_attempted = {KStr ''a/''},
        ns_new_pci = False\<rparr>"
proof -
  have n: "KStr ''b/'' \<notin> notifying (app_init [''a/''])" by (simp add: app_init_def)
  show ?thesis using notify_payload_roundtrip [OF n, of "''a/''" 0 "[KStr ''a/'', KNum 5]"] n
    by (simp add: app_init_def)
qed

end
